theory Spec2Isabelle
  imports Complex_Main "HOL-Library.Multiset" "HOL-Library.Sublist"
begin

section \<open>The analytics aggregation of sectracker (src/src/components/AnalyticsView.tsx)\<close>

text \<open>
  The development embeds the pure part of \<^verbatim>\<open>AnalyticsView.tsx\<close>: the time-window
  filter and the aggregation passes that run between the fetch of the bug records and
  the \<^verbatim>\<open>setState\<close> calls. Each pass becomes a function from the record list
  (and the current time, which the source reads with \<^verbatim>\<open>new Date()\<close>) to the value
  the source hands to its setter.

  Conventions of the embedding:
  \<^item> a JavaScript number is a \<^typ>\<open>real\<close> where it is an amount or a rate, and a
    \<^typ>\<open>nat\<close> where it is a count; IEEE rounding, NaN and the infinities are not part of
    the model;
  \<^item> a \<^verbatim>\<open>Date\<close> is its time value, an \<^typ>\<open>int\<close> of milliseconds since the epoch,
    and the local time zone is UTC; a date string of a record is held as the time value
    that \<^verbatim>\<open>new Date(string)\<close> gives (the strings come out of \<^verbatim>\<open>timestamptz\<close> and
    \<^verbatim>\<open>date\<close> columns, so they parse);
  \<^item> \<^verbatim>\<open>null\<close> and \<^verbatim>\<open>undefined\<close> are \<^term>\<open>None\<close>;
  \<^item> a plain object used as a dictionary is the list of its own properties in creation
    order, read through the prototype chain and enumerated in the order of
    \<^verbatim>\<open>OrdinaryOwnPropertyKeys\<close>.
\<close>

subsection \<open>Records of the source\<close>

text \<open>\<^verbatim>\<open>interface BugData\<close> with its nested \<^verbatim>\<open>programs\<close> and \<^verbatim>\<open>platforms\<close> objects.
  The field \<^verbatim>\<open>id\<close> is \<open>bug_id\<close> here. \<^verbatim>\<open>company\<close> is a nullable column, hence an option.\<close>

record Platforms =
  name :: string

record Programs =
  target_name :: string
  company :: "string option"
  platforms :: "Platforms option"

record BugData =
  bug_id :: string
  title :: string
  severity :: string
  status :: string
  bounty_amount :: "real option"
  created_at :: int
  submission_date :: "int option"
  resolution_date :: "int option"
  program_id :: "string option"
  programs :: "Programs option"

record AnalyticsStats =
  totalBugs :: nat
  totalEarnings :: real
  acceptedBugs :: nat
  rejectedBugs :: nat
  pendingBugs :: nat
  successRate :: real
  avgBounty :: real
  avgTimeToResolution :: real
  thisMonthEarnings :: real
  lastMonthEarnings :: real
  thisYearEarnings :: real
  lastYearEarnings :: real

record MonthlyData =
  month :: string
  earnings :: real
  submissions :: nat
  accepted :: nat

text \<open>The anonymous accumulator objects of \<^verbatim>\<open>platformMap\<close> and \<^verbatim>\<open>programMap\<close>.\<close>

record PlatformAcc =
  bugs :: nat
  earnings :: real
  accepted :: nat
  total :: nat

record ProgramAcc =
  company :: string
  bugs :: nat
  earnings :: real
  accepted :: nat
  total :: nat

record PlatformData =
  name :: string
  bugs :: nat
  earnings :: real
  successRate :: int

record ProgramData =
  name :: string
  company :: string
  bugs :: nat
  earnings :: real
  successRate :: int

subsection \<open>Dates (ECMA-262, Date objects: time values and the calendar)\<close>

definition msPerDay :: int where
  "msPerDay = 86400000"

definition Day :: "int \<Rightarrow> int" where
  "Day t = t div msPerDay"

definition DaysInYear :: "int \<Rightarrow> int" where
  "DaysInYear y =
     (if y mod 4 \<noteq> 0 then 365
      else if y mod 100 \<noteq> 0 then 366
      else if y mod 400 \<noteq> 0 then 365
      else 366)"

definition DayFromYear :: "int \<Rightarrow> int" where
  "DayFromYear y =
     365 * (y - 1970) + (y - 1969) div 4 - (y - 1901) div 100 + (y - 1601) div 400"

definition TimeFromYear :: "int \<Rightarrow> int" where
  "TimeFromYear y = msPerDay * DayFromYear y"

text \<open>ECMA-262 specifies \<^verbatim>\<open>YearFromTime(t)\<close> as the largest \<open>y\<close> with
  \<^verbatim>\<open>TimeFromYear(y) <= t\<close>. It is computed here from the estimate
  \<open>1970 + \<lfloor>400 d / 146097\<rfloor>\<close>, which is off by at most one; lemma
  \<open>YearFromTime_bounds\<close> below proves the specification.\<close>

definition YearFromTime :: "int \<Rightarrow> int" where
  "YearFromTime t =
     (let d = Day t; y = 1970 + (400 * d) div 146097
      in if DayFromYear (y + 1) \<le> d then y + 1
         else if DayFromYear y \<le> d then y
         else y - 1)"

definition InLeapYear :: "int \<Rightarrow> int" where
  "InLeapYear t = (if DaysInYear (YearFromTime t) = 366 then 1 else 0)"

definition DayWithinYear :: "int \<Rightarrow> int" where
  "DayWithinYear t = Day t - DayFromYear (YearFromTime t)"

definition MonthFromTime :: "int \<Rightarrow> int" where
  "MonthFromTime t =
     (let d = DayWithinYear t; l = InLeapYear t
      in if d < 31 then 0
         else if d < 59 + l then 1
         else if d < 90 + l then 2
         else if d < 120 + l then 3
         else if d < 151 + l then 4
         else if d < 181 + l then 5
         else if d < 212 + l then 6
         else if d < 243 + l then 7
         else if d < 273 + l then 8
         else if d < 304 + l then 9
         else if d < 334 + l then 10
         else 11)"

text \<open>The day of the year on which month \<open>mn\<close> (0 to 11) starts: the table that
  \<^verbatim>\<open>MonthFromTime\<close> inverts.\<close>

definition MonthStartDay :: "int \<Rightarrow> int \<Rightarrow> int" where
  "MonthStartDay mn l =
     (if mn = 0 then 0
      else if mn = 1 then 31
      else if mn = 2 then 59 + l
      else if mn = 3 then 90 + l
      else if mn = 4 then 120 + l
      else if mn = 5 then 151 + l
      else if mn = 6 then 181 + l
      else if mn = 7 then 212 + l
      else if mn = 8 then 243 + l
      else if mn = 9 then 273 + l
      else if mn = 10 then 304 + l
      else 334 + l)"

text \<open>\<^verbatim>\<open>MakeDay(year, month, date)\<close>: the month is carried into the year, then the day
  number of the first of that month plus \<open>date - 1\<close>.\<close>

definition MakeDay :: "int \<Rightarrow> int \<Rightarrow> int \<Rightarrow> int" where
  "MakeDay year mon dt =
     (let ym = year + mon div 12; mn = mon mod 12
      in DayFromYear ym + MonthStartDay mn (if DaysInYear ym = 366 then 1 else 0) + dt - 1)"

definition MakeDate :: "int \<Rightarrow> int \<Rightarrow> int" where
  "MakeDate day time = day * msPerDay + time"

text \<open>\<^verbatim>\<open>new Date(year, monthIndex, day)\<close>: a year from 0 to 99 means 1900 + year; the time
  of day is 00:00:00.000.\<close>

definition new_Date :: "int \<Rightarrow> int \<Rightarrow> int \<Rightarrow> int" where
  "new_Date year monthIndex day =
     MakeDate (MakeDay (if 0 \<le> year \<and> year \<le> 99 then 1900 + year else year) monthIndex day) 0"

definition getFullYear :: "int \<Rightarrow> int" where
  "getFullYear t = YearFromTime t"

definition getMonth :: "int \<Rightarrow> int" where
  "getMonth t = MonthFromTime t"

text \<open>\<^verbatim>\<open>date.toLocaleDateString('en-US', { month: 'short', year: '2-digit' })\<close>, for
  example \<^verbatim>\<open>Jun 25\<close>: the abbreviated month name, a space, the year modulo 100 in two
  digits.\<close>

definition monthShort :: "string list" where
  "monthShort = [''Jan'', ''Feb'', ''Mar'', ''Apr'', ''May'', ''Jun'',
                 ''Jul'', ''Aug'', ''Sep'', ''Oct'', ''Nov'', ''Dec'']"

definition digitChar :: "int \<Rightarrow> char" where
  "digitChar n = ''0123456789'' ! nat n"

definition monthYearLabel :: "int \<Rightarrow> int \<Rightarrow> string" where
  "monthYearLabel y m =
     monthShort ! nat m @ '' '' @ [digitChar ((y mod 100) div 10), digitChar (y mod 10)]"

definition toLocaleDateString :: "int \<Rightarrow> string" where
  "toLocaleDateString t = monthYearLabel (getFullYear t) (getMonth t)"

subsection \<open>JavaScript values and plain objects\<close>

text \<open>\<^verbatim>\<open>bug.bounty_amount || 0\<close>: null counts as 0 (and 0 is 0).\<close>

definition bounty :: "BugData \<Rightarrow> real" where
  "bounty bug = (case bounty_amount bug of None \<Rightarrow> 0 | Some a \<Rightarrow> a)"

text \<open>\<^verbatim>\<open>x || 'Unknown'\<close> on an optional string: undefined, null and the empty string
  are falsy.\<close>

definition or_Unknown :: "string option \<Rightarrow> string" where
  "or_Unknown x = (case x of None \<Rightarrow> ''Unknown'' | Some s \<Rightarrow> if s = [] then ''Unknown'' else s)"

text \<open>A plain object \<^verbatim>\<open>{}\<close> used as a dictionary: its own properties, in the order
  of their creation.\<close>

type_synonym 'v js_object = "(string \<times> 'v) list"

text \<open>The properties every plain object inherits from \<^verbatim>\<open>Object.prototype\<close>
  (ECMA-262 with Annex B). Each is a function or, for \<^verbatim>\<open>__proto__\<close>, the prototype
  object itself: a truthy value.\<close>

definition Object_prototype_keys :: "string list" where
  "Object_prototype_keys =
     [''constructor'', ''__proto__'', ''hasOwnProperty'', ''isPrototypeOf'',
      ''propertyIsEnumerable'', ''toLocaleString'', ''toString'', ''valueOf'',
      ''__defineGetter__'', ''__defineSetter__'', ''__lookupGetter__'', ''__lookupSetter__'']"

text \<open>Whether \<^verbatim>\<open>obj[key]\<close> is truthy, for an object whose own values are objects: the
  key is an own property, or it is found on the prototype.\<close>

definition truthy_at :: "'v js_object \<Rightarrow> string \<Rightarrow> bool" where
  "truthy_at obj key = (map_of obj key \<noteq> None \<or> key \<in> set Object_prototype_keys)"

text \<open>\<^verbatim>\<open>obj[key] = v\<close> for a key that is not yet an own property: a property is
  created, last in creation order.\<close>

definition create_property :: "'v js_object \<Rightarrow> string \<Rightarrow> 'v \<Rightarrow> 'v js_object" where
  "create_property obj key v = obj @ [(key, v)]"

text \<open>The field updates \<^verbatim>\<open>obj[key].f += ...\<close> where \<^verbatim>\<open>obj[key]\<close> is truthy. An own
  value is updated in place. When the key is found on the prototype instead, the
  assignments land on that inherited value and the object's own properties stay as
  they are.\<close>

definition update_at :: "'v js_object \<Rightarrow> string \<Rightarrow> ('v \<Rightarrow> 'v) \<Rightarrow> 'v js_object" where
  "update_at obj key f = map (\<lambda>(k, v). if k = key then (k, f v) else (k, v)) obj"

text \<open>An array index is the canonical decimal string of an integer from 0 to
  \<open>2^32 - 2\<close>.\<close>

definition digitValue :: "char \<Rightarrow> int" where
  "digitValue c = of_char c - 48"

definition decimalValue :: "string \<Rightarrow> int" where
  "decimalValue s = foldl (\<lambda>n c. 10 * n + digitValue c) 0 s"

definition is_array_index :: "string \<Rightarrow> bool" where
  "is_array_index s =
     (s \<noteq> [] \<and> list_all (\<lambda>c. c \<in> set ''0123456789'') s
      \<and> (length s = 1 \<or> hd s \<noteq> CHR ''0'')
      \<and> decimalValue s < 2 ^ 32 - 1)"

text \<open>\<^verbatim>\<open>Object.entries(obj)\<close> follows \<^verbatim>\<open>OrdinaryOwnPropertyKeys\<close>: the array
  indices in ascending numeric order, then the other string keys in creation order.\<close>

definition Object_entries :: "'v js_object \<Rightarrow> (string \<times> 'v) list" where
  "Object_entries obj =
     sort_key (\<lambda>(k, v). decimalValue k) (filter (\<lambda>(k, v). is_array_index k) obj)
     @ filter (\<lambda>(k, v). \<not> is_array_index k) obj"

definition Object_values :: "'v js_object \<Rightarrow> 'v list" where
  "Object_values obj = map snd (Object_entries obj)"

subsection \<open>filterBugsByTimeRange\<close>

text \<open>The source reads the clock with \<^verbatim>\<open>new Date()\<close>; here the current time is the
  argument \<open>now\<close>. The selector is a string: any value other than the three cases of the
  \<^verbatim>\<open>switch\<close> takes the \<^verbatim>\<open>default\<close> branch and returns the array it was given.\<close>

definition filterBugsByTimeRange :: "int \<Rightarrow> BugData list \<Rightarrow> string \<Rightarrow> BugData list" where
  "filterBugsByTimeRange now bugList rangeSel =
     (if rangeSel = ''month'' then
        filter (\<lambda>bug. created_at bug \<ge> new_Date (getFullYear now) (getMonth now) 1) bugList
      else if rangeSel = ''6months'' then
        filter (\<lambda>bug. created_at bug \<ge> new_Date (getFullYear now) (getMonth now - 6) 1) bugList
      else if rangeSel = ''year'' then
        filter (\<lambda>bug. created_at bug \<ge> new_Date (getFullYear now) 0 1) bugList
      else bugList)"

subsection \<open>calculateStats\<close>

definition acceptedStatuses :: "string list" where
  "acceptedStatuses = [''Accepted'', ''Resolved'', ''Bounty Awarded'']"

definition rejectedStatuses :: "string list" where
  "rejectedStatuses = [''Duplicate'', ''Not Applicable'']"

definition pendingStatuses :: "string list" where
  "pendingStatuses = [''Draft'', ''Submitted'', ''Triaged'']"

text \<open>\<^verbatim>\<open>list.reduce((sum, bug) => sum + (bug.bounty_amount || 0), 0)\<close>\<close>

definition sumBounty :: "BugData list \<Rightarrow> real" where
  "sumBounty bugList = foldl (\<lambda>sum bug. sum + bounty bug) 0 bugList"

text \<open>\<^verbatim>\<open>new Date(s).getTime()\<close> of a nullable date: \<^verbatim>\<open>new Date(null)\<close> is the epoch.\<close>

definition getTime :: "int option \<Rightarrow> int" where
  "getTime d = (case d of None \<Rightarrow> 0 | Some t \<Rightarrow> t)"

text \<open>\<^verbatim>\<open>Math.ceil((resolutionDate.getTime() - submissionDate.getTime()) / (1000 * 60 * 60 * 24))\<close>\<close>

definition resolutionDays :: "BugData \<Rightarrow> int" where
  "resolutionDays bug =
     \<lceil>real_of_int (getTime (resolution_date bug) - getTime (submission_date bug))
        / (1000 * 60 * 60 * 24)\<rceil>"

text \<open>The six \<^verbatim>\<open>Date\<close> constants at the head of \<^verbatim>\<open>calculateStats\<close>, as functions of
  the current time.\<close>

definition thisMonthStart :: "int \<Rightarrow> int" where
  "thisMonthStart now = new_Date (getFullYear now) (getMonth now) 1"

definition lastMonthStart :: "int \<Rightarrow> int" where
  "lastMonthStart now = new_Date (getFullYear now) (getMonth now - 1) 1"

definition lastMonthEnd :: "int \<Rightarrow> int" where
  "lastMonthEnd now = new_Date (getFullYear now) (getMonth now) 0"

definition thisYearStart :: "int \<Rightarrow> int" where
  "thisYearStart now = new_Date (getFullYear now) 0 1"

definition lastYearStart :: "int \<Rightarrow> int" where
  "lastYearStart now = new_Date (getFullYear now - 1) 0 1"

definition lastYearEnd :: "int \<Rightarrow> int" where
  "lastYearEnd now = new_Date (getFullYear now - 1) 11 31"

definition calculateStats :: "int \<Rightarrow> BugData list \<Rightarrow> BugData list \<Rightarrow> AnalyticsStats" where
  "calculateStats now filteredBugs allBugs =
     (let totalEarnings = sumBounty filteredBugs;
          acceptedBugs = length (filter (\<lambda>bug. status bug \<in> set acceptedStatuses) filteredBugs);
          rejectedBugs = length (filter (\<lambda>bug. status bug \<in> set rejectedStatuses) filteredBugs);
          pendingBugs = length (filter (\<lambda>bug. status bug \<in> set pendingStatuses) filteredBugs);
          resolvedBugs = filter (\<lambda>bug. status bug \<in> set acceptedStatuses
                                      \<or> status bug \<in> set rejectedStatuses) filteredBugs;
          successRate = (if length resolvedBugs > 0
                         then (real acceptedBugs / real (length resolvedBugs)) * 100
                         else 0);
          bugsWithBounty = filter (\<lambda>bug. case bounty_amount bug of None \<Rightarrow> False
                                          | Some a \<Rightarrow> a \<noteq> 0 \<and> a > 0) filteredBugs;
          avgBounty = (if length bugsWithBounty > 0
                       then totalEarnings / real (length bugsWithBounty)
                       else 0);
          bugsWithResolution = filter (\<lambda>bug. submission_date bug \<noteq> None
                                            \<and> resolution_date bug \<noteq> None) filteredBugs;
          avgTimeToResolution =
            (if length bugsWithResolution > 0
             then real_of_int (foldl (\<lambda>sum bug. sum + resolutionDays bug) 0 bugsWithResolution)
                    / real (length bugsWithResolution)
             else 0);
          thisMonthEarnings =
            sumBounty (filter (\<lambda>bug. created_at bug \<ge> thisMonthStart now) allBugs);
          lastMonthEarnings =
            sumBounty (filter (\<lambda>bug. created_at bug \<ge> lastMonthStart now
                                      \<and> created_at bug \<le> lastMonthEnd now) allBugs);
          thisYearEarnings =
            sumBounty (filter (\<lambda>bug. created_at bug \<ge> thisYearStart now) allBugs);
          lastYearEarnings =
            sumBounty (filter (\<lambda>bug. created_at bug \<ge> lastYearStart now
                                      \<and> created_at bug \<le> lastYearEnd now) allBugs)
      in \<lparr> totalBugs = length filteredBugs,
           totalEarnings = totalEarnings,
           acceptedBugs = acceptedBugs,
           rejectedBugs = rejectedBugs,
           pendingBugs = pendingBugs,
           successRate = successRate,
           avgBounty = avgBounty,
           avgTimeToResolution = avgTimeToResolution,
           thisMonthEarnings = thisMonthEarnings,
           lastMonthEarnings = lastMonthEarnings,
           thisYearEarnings = thisYearEarnings,
           lastYearEarnings = lastYearEarnings \<rparr>)"

subsection \<open>calculateMonthlyData\<close>

text \<open>\<^verbatim>\<open>obj[key] = v\<close>: an own property keeps its place and takes the new value,
  otherwise the property is created. (No key of this program's assignments is
  \<^verbatim>\<open>__proto__\<close>, whose assignment would set the prototype.)\<close>

definition assign :: "'v js_object \<Rightarrow> string \<Rightarrow> 'v \<Rightarrow> 'v js_object" where
  "assign obj key v =
     (if map_of obj key \<noteq> None then update_at obj key (\<lambda>_. v) else create_property obj key v)"

text \<open>The body of the initialising loop \<^verbatim>\<open>for (let i = 11; i >= 0; i--)\<close>.\<close>

definition monthly_init :: "int \<Rightarrow> MonthlyData js_object \<Rightarrow> int \<Rightarrow> MonthlyData js_object" where
  "monthly_init now monthlyMap i =
     (let date = new_Date (getFullYear now) (getMonth now - i) 1;
          key = toLocaleDateString date
      in assign monthlyMap key \<lparr> month = key, earnings = 0, submissions = 0, accepted = 0 \<rparr>)"

text \<open>The body of \<^verbatim>\<open>bugs.forEach\<close>: the updates of the bucket
  \<^verbatim>\<open>monthlyMap[key]\<close>, then the whole body.\<close>

definition monthly_update :: "BugData \<Rightarrow> MonthlyData \<Rightarrow> MonthlyData" where
  "monthly_update bug e =
     e\<lparr> submissions := submissions e + 1,
        MonthlyData.earnings := MonthlyData.earnings e + bounty bug,
        MonthlyData.accepted :=
          (if status bug \<in> set acceptedStatuses
           then MonthlyData.accepted e + 1 else MonthlyData.accepted e) \<rparr>"

definition monthly_forEach :: "MonthlyData js_object \<Rightarrow> BugData \<Rightarrow> MonthlyData js_object" where
  "monthly_forEach monthlyMap bug =
     (let date = created_at bug;
          key = toLocaleDateString date
      in if truthy_at monthlyMap key then update_at monthlyMap key (monthly_update bug)
         else monthlyMap)"

definition calculateMonthlyData :: "int \<Rightarrow> BugData list \<Rightarrow> MonthlyData list" where
  "calculateMonthlyData now bugList =
     (let monthlyMap = foldl (monthly_init now) [] (rev [0..11]);
          monthlyMap = foldl monthly_forEach monthlyMap bugList
      in Object_values monthlyMap)"

subsection \<open>calculatePlatformData and calculateTopPrograms\<close>

definition resolvedStatuses :: "string list" where
  "resolvedStatuses = acceptedStatuses @ [''Duplicate'', ''Not Applicable'']"

text \<open>\<^verbatim>\<open>Math.round\<close> rounds to the nearest integer, a half towards plus infinity.\<close>

definition Math_round :: "real \<Rightarrow> int" where
  "Math_round x = \<lfloor>x + 1 / 2\<rfloor>"

text \<open>\<^verbatim>\<open>bug.programs?.platforms?.name || 'Unknown'\<close>\<close>

definition platformName :: "BugData \<Rightarrow> string" where
  "platformName bug =
     or_Unknown (case programs bug of None \<Rightarrow> None
                 | Some p \<Rightarrow> (case platforms p of None \<Rightarrow> None
                              | Some pl \<Rightarrow> Some (Platforms.name pl)))"

text \<open>The body of \<^verbatim>\<open>bugs.forEach\<close> in \<^verbatim>\<open>calculatePlatformData\<close>: first the four
  updates of the accumulator \<^verbatim>\<open>platformMap[platformName]\<close>, then the whole body.\<close>

definition platform_update :: "BugData \<Rightarrow> PlatformAcc \<Rightarrow> PlatformAcc" where
  "platform_update bug e =
     e\<lparr> PlatformAcc.bugs := PlatformAcc.bugs e + 1,
        PlatformAcc.earnings := PlatformAcc.earnings e + bounty bug,
        PlatformAcc.total :=
          (if status bug \<in> set resolvedStatuses
           then PlatformAcc.total e + 1 else PlatformAcc.total e),
        PlatformAcc.accepted :=
          (if status bug \<in> set resolvedStatuses \<and> status bug \<in> set acceptedStatuses
           then PlatformAcc.accepted e + 1 else PlatformAcc.accepted e) \<rparr>"

definition platform_forEach :: "PlatformAcc js_object \<Rightarrow> BugData \<Rightarrow> PlatformAcc js_object" where
  "platform_forEach platformMap bug =
     (let platformMap =
            (if \<not> truthy_at platformMap (platformName bug) then
               assign platformMap (platformName bug)
                 \<lparr> PlatformAcc.bugs = 0, PlatformAcc.earnings = 0,
                   PlatformAcc.accepted = 0, PlatformAcc.total = 0 \<rparr>
             else platformMap)
      in update_at platformMap (platformName bug) (platform_update bug))"

definition to_PlatformData :: "string \<times> PlatformAcc \<Rightarrow> PlatformData" where
  "to_PlatformData entry =
     (case entry of (nm, d) \<Rightarrow>
        \<lparr> PlatformData.name = nm,
          PlatformData.bugs = PlatformAcc.bugs d,
          PlatformData.earnings = PlatformAcc.earnings d,
          PlatformData.successRate =
            (if PlatformAcc.total d > 0
             then Math_round ((real (PlatformAcc.accepted d) / real (PlatformAcc.total d)) * 100)
             else 0) \<rparr>)"

text \<open>\<^verbatim>\<open>.sort((a, b) => b.earnings - a.earnings)\<close>: \<^verbatim>\<open>Array.prototype.sort\<close> is
  stable, and the comparator orders by descending earnings.\<close>

definition calculatePlatformData :: "BugData list \<Rightarrow> PlatformData list" where
  "calculatePlatformData bugList =
     (let platformMap = foldl platform_forEach [] bugList
      in sort_key (\<lambda>d. - PlatformData.earnings d)
           (map to_PlatformData (Object_entries platformMap)))"

text \<open>\<^verbatim>\<open>bug.programs?.target_name || 'Unknown'\<close> and \<^verbatim>\<open>bug.programs?.company || 'Unknown'\<close>\<close>

definition programName :: "BugData \<Rightarrow> string" where
  "programName bug = or_Unknown (map_option target_name (programs bug))"

definition programCompany :: "BugData \<Rightarrow> string" where
  "programCompany bug =
     or_Unknown (case programs bug of None \<Rightarrow> None | Some p \<Rightarrow> Programs.company p)"

text \<open>The body of \<^verbatim>\<open>bugs.forEach\<close> in \<^verbatim>\<open>calculateTopPrograms\<close>: the updates of the
  accumulator \<^verbatim>\<open>programMap[programName]\<close>, then the whole body. The company is set
  only where the accumulator is created.\<close>

definition program_update :: "BugData \<Rightarrow> ProgramAcc \<Rightarrow> ProgramAcc" where
  "program_update bug e =
     e\<lparr> ProgramAcc.bugs := ProgramAcc.bugs e + 1,
        ProgramAcc.earnings := ProgramAcc.earnings e + bounty bug,
        ProgramAcc.total :=
          (if status bug \<in> set resolvedStatuses
           then ProgramAcc.total e + 1 else ProgramAcc.total e),
        ProgramAcc.accepted :=
          (if status bug \<in> set resolvedStatuses \<and> status bug \<in> set acceptedStatuses
           then ProgramAcc.accepted e + 1 else ProgramAcc.accepted e) \<rparr>"

definition program_forEach :: "ProgramAcc js_object \<Rightarrow> BugData \<Rightarrow> ProgramAcc js_object" where
  "program_forEach programMap bug =
     (let programMap =
            (if \<not> truthy_at programMap (programName bug) then
               assign programMap (programName bug)
                 \<lparr> ProgramAcc.company = programCompany bug,
                   ProgramAcc.bugs = 0, ProgramAcc.earnings = 0,
                   ProgramAcc.accepted = 0, ProgramAcc.total = 0 \<rparr>
             else programMap)
      in update_at programMap (programName bug) (program_update bug))"

definition to_ProgramData :: "string \<times> ProgramAcc \<Rightarrow> ProgramData" where
  "to_ProgramData entry =
     (case entry of (nm, d) \<Rightarrow>
        \<lparr> ProgramData.name = nm,
          ProgramData.company = ProgramAcc.company d,
          ProgramData.bugs = ProgramAcc.bugs d,
          ProgramData.earnings = ProgramAcc.earnings d,
          ProgramData.successRate =
            (if ProgramAcc.total d > 0
             then Math_round ((real (ProgramAcc.accepted d) / real (ProgramAcc.total d)) * 100)
             else 0) \<rparr>)"

definition calculateTopPrograms :: "BugData list \<Rightarrow> ProgramData list" where
  "calculateTopPrograms bugList =
     (let programMap = foldl program_forEach [] bugList
      in take 5 (sort_key (\<lambda>d. - ProgramData.earnings d)
                   (map to_ProgramData (Object_entries programMap))))"

subsection \<open>Sample inputs\<close>

text \<open>The current time of the examples is 2025-06-15T12:00:00Z. The sample record is
  the one of the specification's scenario A: resolved, a bounty of 500, created now, no
  linked program.\<close>

definition exampleNow :: int where
  "exampleNow = 1749988800000"

definition exampleBug :: BugData where
  "exampleBug =
     \<lparr> bug_id = ''b1'', title = ''Stored XSS'', severity = ''High'', status = ''Resolved'',
       bounty_amount = Some 500, created_at = 1749988800000,
       submission_date = None, resolution_date = None,
       program_id = None, programs = None \<rparr>"

text \<open>The record linked to a program with the given target name, company and
  platform name.\<close>

definition inProgram :: "string \<Rightarrow> string \<Rightarrow> string \<Rightarrow> BugData \<Rightarrow> BugData" where
  "inProgram tn co pl bug =
     bug\<lparr> program_id := Some ''p'',
          programs := Some \<lparr> target_name = tn, company = Some co,
                             platforms = Some \<lparr> Platforms.name = pl \<rparr> \<rparr> \<rparr>"

subsection \<open>The calendar buckets as claim C2 words them\<close>



subsection \<open>Calendar months\<close>

text \<open>The calendar month of a time value, counted from January of year 0: two time values
  have the same number exactly when they lie in the same month of the same year, and the
  month before number \<open>k\<close> has number \<open>k - 1\<close>, also across a change of year.\<close>

definition calendarMonth :: "int \<Rightarrow> int" where
  "calendarMonth t = 12 * getFullYear t + getMonth t"

subsection \<open>Encounter order and property order\<close>

text \<open>The distinct elements of a list in the order of their first occurrence: the
  encounter order of the group keys.\<close>

definition encounterOrder :: "'a list \<Rightarrow> 'a list" where
  "encounterOrder xs = rev (remdups (rev xs))"

text \<open>The order in which \<open>Object_entries\<close> lists property keys that were created in the
  order \<open>ks\<close>.\<close>

definition propertyOrder :: "string list \<Rightarrow> string list" where
  "propertyOrder ks =
     sort_key decimalValue (filter is_array_index ks) @ filter (\<lambda>k. \<not> is_array_index k) ks"

text \<open>The company value of the first, and of the last, record of a program-name
  group; \<open>None\<close> when no record has that program name.\<close>

definition firstSeenCompany :: "BugData list \<Rightarrow> string \<Rightarrow> string option" where
  "firstSeenCompany bugList nm =
     (case filter (\<lambda>bug. programName bug = nm) bugList of
        [] \<Rightarrow> None
      | bug # _ \<Rightarrow> Some (programCompany bug))"

definition lastSeenCompany :: "BugData list \<Rightarrow> string \<Rightarrow> string option" where
  "lastSeenCompany bugList nm =
     (case rev (filter (\<lambda>bug. programName bug = nm) bugList) of
        [] \<Rightarrow> None
      | bug # _ \<Rightarrow> Some (programCompany bug))"

subsection \<open>The accumulator of a group\<close>

text \<open>What the grouping loops leave under a key \<open>k\<close>: the accumulator created at the
  first record of the group and updated with each record of the group, in order.\<close>

definition platformGroup :: "BugData list \<Rightarrow> string \<Rightarrow> PlatformAcc" where
  "platformGroup bugList k =
     foldl (\<lambda>e bug. platform_update bug e)
       \<lparr> PlatformAcc.bugs = 0, PlatformAcc.earnings = 0,
         PlatformAcc.accepted = 0, PlatformAcc.total = 0 \<rparr>
       (filter (\<lambda>bug. platformName bug = k) bugList)"

definition programGroup :: "BugData list \<Rightarrow> string \<Rightarrow> ProgramAcc" where
  "programGroup bugList k =
     foldl (\<lambda>e bug. program_update bug e)
       \<lparr> ProgramAcc.company = programCompany (hd (filter (\<lambda>bug. programName bug = k) bugList)),
         ProgramAcc.bugs = 0, ProgramAcc.earnings = 0,
         ProgramAcc.accepted = 0, ProgramAcc.total = 0 \<rparr>
       (filter (\<lambda>bug. programName bug = k) bugList)"

section \<open>The calendar\<close>

lemma div_step:
  fixes a n :: int
  assumes "0 < n"
  shows "(a + 1) div n = a div n + (if (a + 1) mod n = 0 then 1 else 0)"
proof -
  let ?q = "a div n" and ?r = "a mod n"
  have r: "0 \<le> ?r" "?r < n" using assms by simp_all
  show ?thesis
  proof (cases "?r + 1 = n")
    case True
    have "a + 1 = n * ?q + (?r + 1)" by simp
    also have "\<dots> = n * (?q + 1) + 0" unfolding True by (simp add: algebra_simps)
    finally have "a + 1 = n * (?q + 1) + 0" .
    then have "(a + 1) div n = ?q + 1" "(a + 1) mod n = 0"
      using assms by (metis int_div_pos_eq order_refl, metis int_mod_pos_eq order_refl)
    then show ?thesis by simp
  next
    case False
    then have lt: "?r + 1 < n" "0 \<le> ?r + 1" "0 < ?r + 1" using r by simp_all
    have "a + 1 = n * ?q + (?r + 1)" by simp
    then have "(a + 1) div n = ?q" "(a + 1) mod n = ?r + 1"
      using lt by (metis int_div_pos_eq, metis int_mod_pos_eq)
    then show ?thesis using lt by simp
  qed
qed

lemma div_bounds:
  fixes x n :: int
  assumes "0 < n"
  shows "n * (x div n) \<le> x" and "x < n * (x div n) + n"
proof -
  have "x = n * (x div n) + x mod n" by simp
  moreover have "0 \<le> x mod n" "x mod n < n" using assms by simp_all
  ultimately show "n * (x div n) \<le> x" and "x < n * (x div n) + n" by linarith+
qed

text \<open>A year has \<open>DaysInYear\<close> days.\<close>

lemma DayFromYear_Suc: "DayFromYear (y + 1) = DayFromYear y + DaysInYear y"
proof -
  have m4: "(y - 1968) mod 4 = y mod 4" by algebra
  have m100: "(y - 1900) mod 100 = y mod 100" by algebra
  have m400: "(y - 1600) mod 400 = y mod 400" by algebra
  have d4: "(y + 1 - 1969) div 4 = (y - 1969) div 4 + (if y mod 4 = 0 then 1 else 0)"
    using div_step[of 4 "y - 1969"] m4 by simp
  have d100: "(y + 1 - 1901) div 100 = (y - 1901) div 100 + (if y mod 100 = 0 then 1 else 0)"
    using div_step[of 100 "y - 1901"] m100 by simp
  have d400: "(y + 1 - 1601) div 400 = (y - 1601) div 400 + (if y mod 400 = 0 then 1 else 0)"
    using div_step[of 400 "y - 1601"] m400 by simp
  have i1: "y mod 4 = 0" if "y mod 100 = 0"
    using mod_mod_cancel[of 4 100 y] that by simp
  have i2: "y mod 100 = 0" if "y mod 400 = 0"
    using mod_mod_cancel[of 100 400 y] that by simp
  show ?thesis
  proof (cases "y mod 4 = 0")
    case False
    then have "y mod 100 \<noteq> 0 \<and> y mod 400 \<noteq> 0" using i1 i2 by auto
    with False show ?thesis unfolding DayFromYear_def DaysInYear_def d4 d100 d400 by simp
  next
    case True
    show ?thesis
    proof (cases "y mod 100 = 0")
      case False
      then have "y mod 400 \<noteq> 0" using i2 by auto
      with True False show ?thesis unfolding DayFromYear_def DaysInYear_def d4 d100 d400 by simp
    next
      case h: True
      with True show ?thesis unfolding DayFromYear_def DaysInYear_def d4 d100 d400 by simp
    qed
  qed
qed

lemma DaysInYear_cases: "DaysInYear y = 365 \<or> DaysInYear y = 366"
  by (simp add: DaysInYear_def)

lemma DayFromYear_less_Suc: "DayFromYear y < DayFromYear (y + 1)"
  using DaysInYear_cases[of y] by (auto simp: DayFromYear_Suc)

lemma DayFromYear_mono_nat: "DayFromYear y \<le> DayFromYear (y + int n)"
proof (induction n)
  case 0
  show ?case by simp
next
  case (Suc n)
  have "DayFromYear (y + int n) < DayFromYear (y + int n + 1)" by (rule DayFromYear_less_Suc)
  moreover have "y + int (Suc n) = y + int n + 1" by simp
  ultimately show ?case using Suc by (simp only:)
qed

lemma DayFromYear_mono: "y \<le> z \<Longrightarrow> DayFromYear y \<le> DayFromYear z"
  using DayFromYear_mono_nat[of y "nat (z - y)"] by simp

lemma DayFromYear_estimate:
  "146097 * y - 287811697 < 400 * DayFromYear y \<and> 400 * DayFromYear y < 146097 * y - 287810497"
proof -
  obtain a b c where abc: "a = (y - 1969) div 4" "b = (y - 1901) div 100" "c = (y - 1601) div 400"
    by simp
  have "4 * a \<le> y - 1969" "y - 1969 < 4 * a + 4" "100 * b \<le> y - 1901" "y - 1901 < 100 * b + 100"
     "400 * c \<le> y - 1601" "y - 1601 < 400 * c + 400"
    using div_bounds[of 4 "y - 1969"] div_bounds[of 100 "y - 1901"] div_bounds[of 400 "y - 1601"]
    by (simp_all add: abc)
  moreover have "DayFromYear y = 365 * y - 719050 + a - b + c"
    by (simp add: DayFromYear_def abc)
  ultimately show ?thesis by linarith
qed

text \<open>\<open>YearFromTime\<close> meets its specification in ECMA-262: the year whose first day is
  the last one not after the day of \<open>t\<close>.\<close>

lemma YearFromTime_bounds:
  "DayFromYear (YearFromTime t) \<le> Day t \<and> Day t < DayFromYear (YearFromTime t + 1)"
proof -
  define d where "d = Day t"
  define q where "q = (400 * d) div 146097"
  define y where "y = 1970 + q"
  have b: "146097 * q \<le> 400 * d" "400 * d < 146097 * q + 146097"
    using div_bounds[of 146097 "400 * d"] by (simp_all add: q_def)
  obtain ym yp where yy: "ym = y - 1" "yp = y + 1 + 1" by simp
  have e: "400 * DayFromYear ym < 146097 * ym - 287810497"
          "146097 * yp - 287811697 < 400 * DayFromYear yp"
    using DayFromYear_estimate by simp_all
  have ymq: "ym = 1969 + q" "yp = 1972 + q" by (simp_all add: yy y_def)
  have ex: "146097 * ym = 146097 * q + 287664993" "146097 * yp = 146097 * q + 288103284"
    by (simp_all add: ymq)
  have "400 * DayFromYear ym < 400 * d"
    using e(1) b(1) ex(1) by linarith
  moreover have "400 * d < 400 * DayFromYear yp"
    using e(2) b(2) ex(2) by linarith
  ultimately have lo: "DayFromYear (y - 1) \<le> d" and hi: "d < DayFromYear (y + 1 + 1)"
    by (simp_all add: yy)
  have Y: "YearFromTime t = (if DayFromYear (y + 1) \<le> d then y + 1
         else if DayFromYear y \<le> d then y else y - 1)"
    by (simp add: YearFromTime_def Let_def d_def y_def q_def)
  show ?thesis
    unfolding Y d_def[symmetric] using lo hi by auto
qed

lemma YearFromTime_unique:
  assumes "DayFromYear y \<le> Day t" "Day t < DayFromYear (y + 1)"
  shows "YearFromTime t = y"
proof (rule ccontr)
  assume ne: "YearFromTime t \<noteq> y"
  let ?Y = "YearFromTime t"
  have bY: "DayFromYear ?Y \<le> Day t" "Day t < DayFromYear (?Y + 1)"
    using YearFromTime_bounds[of t] by simp_all
  show False
  proof (cases "?Y < y")
    case True
    then have "DayFromYear (?Y + 1) \<le> DayFromYear y" by (intro DayFromYear_mono) simp
    with bY assms show False by linarith
  next
    case False
    with ne have "y + 1 \<le> ?Y" by simp
    then have "DayFromYear (y + 1) \<le> DayFromYear ?Y" by (rule DayFromYear_mono)
    with bY assms show False by linarith
  qed
qed

lemma Day_MakeDate: "0 \<le> r \<Longrightarrow> r < msPerDay \<Longrightarrow> Day (MakeDate d r) = d"
proof -
  assume "0 \<le> r" "r < msPerDay"
  moreover have "MakeDate d r = msPerDay * d + r" by (simp add: MakeDate_def)
  ultimately show ?thesis unfolding Day_def by (metis int_div_pos_eq)
qed

lemma InLeapYear_cases: "InLeapYear t = 0 \<or> InLeapYear t = 1"
  by (simp add: InLeapYear_def)

lemma month_cases:
  fixes m :: int
  assumes "0 \<le> m" "m < 12"
  shows "m \<in> {0, 1, 2, 3, 4, 5, 6, 7, 8, 9, 10, 11}"
proof -
  have "m \<in> set [0..11]" using assms by simp
  also have "[0..11] = [0, 1, 2, 3, 4, 5, 6, 7, 8, 9, 10, 11::int]" by (simp add: upto.simps)
  finally show ?thesis by simp
qed

lemma MonthStartDay_bounds:
  assumes "0 \<le> mn" "mn < 12" "l = 0 \<or> l = 1"
  shows "0 \<le> MonthStartDay mn l" "MonthStartDay mn l < 365 + l"
  using month_cases[OF assms(1,2)] assms(3) by (auto simp: MonthStartDay_def)

lemma MonthFromTime_start:
  assumes "DayWithinYear t = MonthStartDay mn (InLeapYear t)" "0 \<le> mn" "mn < 12"
  shows "MonthFromTime t = mn"
proof -
  have "MonthFromTime t = mn" if "InLeapYear t = l" "l = 0 \<or> l = 1" for l
    using month_cases[OF assms(2,3)] that(2) assms(1)
    unfolding MonthFromTime_def Let_def that(1)
    by (elim insertE emptyE disjE; simp add: MonthStartDay_def)
  then show ?thesis using InLeapYear_cases[of t] by blast
qed

lemma MonthFromTime_range: "0 \<le> MonthFromTime t \<and> MonthFromTime t < 12"
  by (simp add: MonthFromTime_def Let_def)

text \<open>The first instant of a month, as \<open>MakeDay\<close> builds it, lies in that month of that
  year.\<close>

lemma MakeDay_first:
  fixes year mon :: int
  defines "ym \<equiv> year + mon div 12" and "mn \<equiv> mon mod 12"
  defines "t \<equiv> MakeDate (MakeDay year mon 1) 0"
  shows "YearFromTime t = ym" and "MonthFromTime t = mn"
proof -
  define l :: int where "l = (if DaysInYear ym = 366 then 1 else 0)"
  have mn: "0 \<le> mn" "mn < 12" by (simp_all add: mn_def)
  have l: "l = 0 \<or> l = 1" by (simp add: l_def)
  have D: "Day t = DayFromYear ym + MonthStartDay mn l"
    unfolding t_def
    by (subst Day_MakeDate) (simp_all add: msPerDay_def MakeDay_def Let_def ym_def mn_def l_def)
  have "DaysInYear ym = 365 + l" using DaysInYear_cases[of ym] by (auto simp: l_def)
  then have "DayFromYear ym \<le> Day t" "Day t < DayFromYear (ym + 1)"
    using MonthStartDay_bounds[OF mn l] by (simp_all add: D DayFromYear_Suc)
  then show Y: "YearFromTime t = ym" by (rule YearFromTime_unique)
  have "InLeapYear t = l" by (simp add: InLeapYear_def Y l_def)
  moreover have "DayWithinYear t = MonthStartDay mn l" by (simp add: DayWithinYear_def Y D)
  ultimately show "MonthFromTime t = mn" using mn by (intro MonthFromTime_start) simp_all
qed

lemma MonthStartDay_le:
  assumes "0 \<le> DayWithinYear t"
  shows "MonthStartDay (MonthFromTime t) (InLeapYear t) \<le> DayWithinYear t"
  using assms InLeapYear_cases[of t]
  by (auto simp: MonthFromTime_def MonthStartDay_def Let_def)

lemma MonthStartDay_strict:
  assumes "0 \<le> mn" "mn < 11" "l = 0 \<or> l = 1"
  shows "MonthStartDay mn l < MonthStartDay (mn + 1) l"
proof -
  have "mn \<in> {0, 1, 2, 3, 4, 5, 6, 7, 8, 9, 10, 11}" using assms by (intro month_cases) simp_all
  then show ?thesis using assms(2,3) by (elim insertE emptyE disjE; simp add: MonthStartDay_def)
qed

text \<open>The first days of consecutive months are in order.\<close>

lemma MakeDay_month_strict: "MakeDay year mon 1 < MakeDay year (mon + 1) 1"
proof -
  define l :: "int \<Rightarrow> int" where "l y = (if DaysInYear y = 366 then 1 else 0)" for y
  have md: "MakeDay year k 1 = DayFromYear (year + k div 12) + MonthStartDay (k mod 12) (l (year + k div 12))" for k
    by (simp add: MakeDay_def Let_def l_def)
  have mm: "(mon + 1) mod 12 = (mon mod 12 + 1) mod 12" by (simp add: mod_add_left_eq)
  have dd: "(mon + 1) div 12 = mon div 12 + (if (mon + 1) mod 12 = 0 then 1 else 0)"
    by (rule div_step) simp
  show ?thesis
  proof (cases "mon mod 12 = 11")
    case True
    then have m0: "(mon + 1) mod 12 = 0" unfolding mm by simp
    then have d1: "(mon + 1) div 12 = mon div 12 + 1" unfolding dd by simp
    have "MonthStartDay 11 (l y) < DaysInYear y" for y
      using DaysInYear_cases[of y] by (auto simp: MonthStartDay_def l_def)
    then have "DayFromYear (year + mon div 12) + MonthStartDay 11 (l (year + mon div 12))
                 < DayFromYear (year + mon div 12 + 1)"
      by (simp add: DayFromYear_Suc)
    then show ?thesis
      unfolding md m0 d1 True by (simp add: MonthStartDay_def add.assoc)
  next
    case False
    then have m: "0 \<le> mon mod 12" "mon mod 12 < 11" by simp_all
    then have m1: "(mon + 1) mod 12 = mon mod 12 + 1" unfolding mm by simp
    then have "(mon + 1) mod 12 \<noteq> 0" using m by simp
    then have d0: "(mon + 1) div 12 = mon div 12" unfolding dd by simp
    have ll: "l (year + mon div 12) = 0 \<or> l (year + mon div 12) = 1" by (simp add: l_def)
    show ?thesis
      unfolding md m1 d0 using MonthStartDay_strict[OF m ll] by simp
  qed
qed

lemma YearFromTime_epoch:
  assumes "0 \<le> t"
  shows "1970 \<le> YearFromTime t"
proof (rule ccontr)
  assume "\<not> 1970 \<le> YearFromTime t"
  then have "YearFromTime t + 1 \<le> 1970" by simp
  then have "DayFromYear (YearFromTime t + 1) \<le> DayFromYear 1970" by (rule DayFromYear_mono)
  moreover have "DayFromYear 1970 = 0" by (simp add: DayFromYear_def)
  moreover have "0 \<le> Day t" using assms by (simp add: Day_def msPerDay_def pos_imp_zdiv_nonneg_iff)
  ultimately show False using YearFromTime_bounds[of t] by linarith
qed

lemma new_Date_plain:
  assumes "100 \<le> year"
  shows "new_Date year mon dt = MakeDate (MakeDay year mon dt) 0"
  using assms by (simp add: new_Date_def)

lemma new_Date_first:
  assumes "100 \<le> year"
  shows "getFullYear (new_Date year mon 1) = year + mon div 12"
    and "getMonth (new_Date year mon 1) = mon mod 12"
  using MakeDay_first[of year mon] assms
  by (simp_all add: new_Date_plain getFullYear_def getMonth_def)

text \<open>The first instant of the current month is not after the current time.\<close>

lemma thisMonthStart_le_now:
  assumes "0 \<le> now"
  shows "thisMonthStart now \<le> now"
proof -
  let ?y = "YearFromTime now" and ?m = "MonthFromTime now"
  have y: "100 \<le> ?y" using YearFromTime_epoch[OF assms] by simp
  have m: "?m div 12 = 0" "?m mod 12 = ?m" using MonthFromTime_range[of now] by simp_all
  have l: "(if DaysInYear ?y = 366 then 1 else 0) = InLeapYear now" by (simp add: InLeapYear_def)
  have w: "0 \<le> DayWithinYear now" using YearFromTime_bounds[of now] by (simp add: DayWithinYear_def)
  have "MakeDay ?y ?m 1 = DayFromYear ?y + MonthStartDay ?m (InLeapYear now)"
    by (simp add: MakeDay_def Let_def m l)
  also have "\<dots> \<le> Day now" using MonthStartDay_le[OF w] by (simp add: DayWithinYear_def)
  finally have "MakeDay ?y ?m 1 * msPerDay \<le> Day now * msPerDay"
    by (simp add: msPerDay_def)
  also have "\<dots> \<le> now" using div_bounds(1)[of msPerDay now]
    by (simp add: Day_def msPerDay_def mult.commute)
  finally show ?thesis
    by (simp add: thisMonthStart_def getFullYear_def getMonth_def new_Date_plain[OF y] MakeDate_def)
qed

lemma lastMonth_order: "lastMonthStart now \<le> lastMonthEnd now \<and> lastMonthEnd now < thisMonthStart now"
proof -
  let ?y = "if 0 \<le> getFullYear now \<and> getFullYear now \<le> 99 then 1900 + getFullYear now
            else getFullYear now"
  have "MakeDay ?y (getMonth now - 1) 1 < MakeDay ?y (getMonth now - 1 + 1) 1"
    by (rule MakeDay_month_strict)
  moreover have "MakeDay ?y (getMonth now) 0 = MakeDay ?y (getMonth now) 1 - 1"
    by (simp add: MakeDay_def Let_def)
  ultimately show ?thesis
    by (simp add: lastMonthStart_def lastMonthEnd_def thisMonthStart_def new_Date_def
        MakeDate_def msPerDay_def)
qed

lemma lastYear_order:
  assumes "0 \<le> now"
  shows "lastYearStart now \<le> lastYearEnd now \<and> lastYearEnd now < thisYearStart now
         \<and> thisYearStart now \<le> thisMonthStart now"
proof -
  let ?y = "getFullYear now" and ?m = "getMonth now"
  have y: "100 \<le> ?y" "100 \<le> ?y - 1"
    using YearFromTime_epoch[OF assms] by (simp_all add: getFullYear_def)
  have m: "?m div 12 = 0" "?m mod 12 = ?m" "0 \<le> ?m" "?m < 12"
    using MonthFromTime_range[of now] by (simp_all add: getMonth_def)
  have e: "MakeDay (?y - 1) 11 31 = DayFromYear ?y - 1"
    using DayFromYear_Suc[of "?y - 1"] DaysInYear_cases[of "?y - 1"]
    by (auto simp: MakeDay_def Let_def MonthStartDay_def)
  have s: "MakeDay (?y - 1) 0 1 = DayFromYear (?y - 1)" "MakeDay ?y 0 1 = DayFromYear ?y"
    by (simp_all add: MakeDay_def Let_def MonthStartDay_def)
  have t: "MakeDay ?y 0 1 \<le> MakeDay ?y ?m 1"
    using MonthStartDay_bounds(1)[OF m(3,4), of "if DaysInYear ?y = 366 then 1 else 0"]
    by (simp add: MakeDay_def Let_def m MonthStartDay_def)
  have "DayFromYear (?y - 1) < DayFromYear ?y"
    using DayFromYear_less_Suc[of "?y - 1"] by simp
  then show ?thesis
    using t by (simp add: lastYearStart_def lastYearEnd_def thisYearStart_def thisMonthStart_def
        new_Date_plain[OF y(1)] new_Date_plain[OF y(2)] MakeDate_def msPerDay_def e s)
qed










lemma calendarMonth_eq_iff:
  "(calendarMonth t = calendarMonth u) = (getFullYear t = getFullYear u \<and> getMonth t = getMonth u)"
proof
  assume e: "calendarMonth t = calendarMonth u"
  have b: "0 \<le> getMonth t" "getMonth t < 12" "0 \<le> getMonth u" "getMonth u < 12"
    using MonthFromTime_range[of t] MonthFromTime_range[of u] by (simp_all add: getMonth_def)
  have "\<not> getFullYear t < getFullYear u"
    using e b unfolding calendarMonth_def by linarith
  moreover have "\<not> getFullYear u < getFullYear t"
    using e b unfolding calendarMonth_def by linarith
  ultimately have "getFullYear t = getFullYear u" by simp
  with e show "getFullYear t = getFullYear u \<and> getMonth t = getMonth u"
    by (simp add: calendarMonth_def)
next
  assume "getFullYear t = getFullYear u \<and> getMonth t = getMonth u"
  then show "calendarMonth t = calendarMonth u" by (simp add: calendarMonth_def)
qed



section \<open>The time-window filter\<close>

text \<open>
  Claim C7. The filter is a total function of the current time, the records and the
  selector, so it neither throws nor touches its input. A selector outside \<^verbatim>\<open>all\<close>,
  \<^verbatim>\<open>month\<close>, \<^verbatim>\<open>6months\<close> and \<^verbatim>\<open>year\<close> behaves as \<^verbatim>\<open>all\<close>: the result is the
  input list itself, every record in its place.
\<close>

theorem filterBugsByTimeRange_invalid_selector:
  assumes "rangeSel \<notin> {''all'', ''month'', ''6months'', ''year''}"
  shows "filterBugsByTimeRange now bugList rangeSel = filterBugsByTimeRange now bugList ''all''
         \<and> filterBugsByTimeRange now bugList ''all'' = bugList"
  using assms by (simp add: filterBugsByTimeRange_def)

theorem filterBugsByTimeRange_invalid_selector_witness:
  "filterBugsByTimeRange exampleNow [exampleBug, exampleBug\<lparr>created_at := 0\<rparr>] ''decade''
     = filterBugsByTimeRange exampleNow [exampleBug, exampleBug\<lparr>created_at := 0\<rparr>] ''all''
   \<and> filterBugsByTimeRange exampleNow [exampleBug, exampleBug\<lparr>created_at := 0\<rparr>] ''all''
     = [exampleBug, exampleBug\<lparr>created_at := 0\<rparr>]"
  by (rule filterBugsByTimeRange_invalid_selector) simp

text \<open>
  Claim C6. For a fixed current time, filtering the output of the filter again with the
  same selector gives that output back.
\<close>

theorem filterBugsByTimeRange_idempotent:
  "filterBugsByTimeRange now (filterBugsByTimeRange now bugList rangeSel) rangeSel
     = filterBugsByTimeRange now bugList rangeSel"
  by (simp add: filterBugsByTimeRange_def)

theorem filterBugsByTimeRange_idempotent_witness:
  "filterBugsByTimeRange exampleNow
     (filterBugsByTimeRange exampleNow [exampleBug\<lparr>created_at := 0\<rparr>, exampleBug] ''month'') ''month''
     = filterBugsByTimeRange exampleNow [exampleBug\<lparr>created_at := 0\<rparr>, exampleBug] ''month''"
  by (rule filterBugsByTimeRange_idempotent)

section \<open>Summary statistics\<close>

lemma foldl_add_sum_list:
  fixes f :: "'a \<Rightarrow> 'b::comm_monoid_add"
  shows "foldl (\<lambda>s x. s + f x) a xs = a + sum_list (map f xs)"
  by (induction xs arbitrary: a) (simp_all add: add.assoc)

lemma sumBounty_sum_list: "sumBounty bugList = sum_list (map bounty bugList)"
  by (simp add: sumBounty_def foldl_add_sum_list)

text \<open>\<open>totalEarnings\<close> is the sum of the bounties of the filtered records, a null bounty
  counting as 0.\<close>

lemma totalEarnings_sum:
  "totalEarnings (calculateStats now filteredBugs allBugs) = sum_list (map bounty filteredBugs)"
  by (simp add: calculateStats_def Let_def sumBounty_sum_list)

lemma length_filter_disj:
  assumes "\<And>x. \<not> (P x \<and> Q x)"
  shows "length (filter (\<lambda>x. P x \<or> Q x) xs) = length (filter P xs) + length (filter Q xs)"
  using assms by (induction xs) auto

lemma ratio_le_one:
  fixes a r :: nat
  shows "real a / real (a + r) \<le> 1"
  by (metis (no_types, lifting) divide_le_0_iff divide_right_mono divide_self le_add1
      le_numeral_extra(1) of_nat_0_le_iff of_nat_le_iff order.trans)

lemma accepted_rejected_disjoint:
  "\<not> (s \<in> set acceptedStatuses \<and> s \<in> set rejectedStatuses)"
  by (auto simp: acceptedStatuses_def rejectedStatuses_def)

text \<open>
  Claim C1. \<open>acceptedBugs\<close> counts the records whose status is Accepted, Resolved or
  Bounty Awarded, \<open>rejectedBugs\<close> those whose status is Duplicate or Not Applicable;
  \<open>successRate\<close> is accepted / (accepted + rejected) * 100 when that denominator is
  positive and 0 when it is 0, and so lies between 0 and 100.
\<close>

theorem successRate_formula:
  fixes now :: int and filteredBugs allBugs :: "BugData list"
  defines "s \<equiv> calculateStats now filteredBugs allBugs"
  shows "acceptedBugs s
           = length (filter (\<lambda>bug. status bug = ''Accepted'' \<or> status bug = ''Resolved''
                                  \<or> status bug = ''Bounty Awarded'') filteredBugs)
         \<and> rejectedBugs s
           = length (filter (\<lambda>bug. status bug = ''Duplicate''
                                  \<or> status bug = ''Not Applicable'') filteredBugs)
         \<and> AnalyticsStats.successRate s
           = (if acceptedBugs s + rejectedBugs s > 0
              then real (acceptedBugs s) / real (acceptedBugs s + rejectedBugs s) * 100
              else 0)
         \<and> 0 \<le> AnalyticsStats.successRate s \<and> AnalyticsStats.successRate s \<le> 100"
proof -
  let ?a = "length (filter (\<lambda>bug. status bug \<in> set acceptedStatuses) filteredBugs)"
  let ?r = "length (filter (\<lambda>bug. status bug \<in> set rejectedStatuses) filteredBugs)"
  have res: "length (filter (\<lambda>bug. status bug \<in> set acceptedStatuses
                                   \<or> status bug \<in> set rejectedStatuses) filteredBugs) = ?a + ?r"
    by (rule length_filter_disj) (rule accepted_rejected_disjoint)
  have a: "acceptedBugs s = ?a" and r: "rejectedBugs s = ?r"
    by (simp_all add: s_def calculateStats_def Let_def)
  have sr: "AnalyticsStats.successRate s = (if ?a + ?r > 0 then real ?a / real (?a + ?r) * 100 else 0)"
    unfolding s_def calculateStats_def Let_def res by simp
  have rng: "0 \<le> AnalyticsStats.successRate s \<and> AnalyticsStats.successRate s \<le> 100"
  proof (cases "?a + ?r > 0")
    case True
    define x where "x = real ?a / real (?a + ?r)"
    have "0 \<le> x" unfolding x_def by (rule divide_nonneg_nonneg) simp_all
    moreover have "x \<le> 1" unfolding x_def by (rule ratio_le_one)
    moreover have "AnalyticsStats.successRate s = x * 100"
      unfolding sr x_def using True by (simp only: if_True)
    ultimately show ?thesis by linarith
  next
    case False
    then show ?thesis unfolding sr by simp
  qed
  have a': "?a = length (filter (\<lambda>bug. status bug = ''Accepted'' \<or> status bug = ''Resolved''
                                  \<or> status bug = ''Bounty Awarded'') filteredBugs)"
    by (simp add: acceptedStatuses_def)
  have r': "?r = length (filter (\<lambda>bug. status bug = ''Duplicate''
                                  \<or> status bug = ''Not Applicable'') filteredBugs)"
    by (simp add: rejectedStatuses_def)
  show ?thesis
    using sr rng unfolding a r a' r' by simp
qed

theorem successRate_formula_witness:
  "AnalyticsStats.successRate
     (calculateStats exampleNow
        [exampleBug, exampleBug\<lparr>status := ''Duplicate''\<rparr>, exampleBug\<lparr>status := ''Draft''\<rparr>,
         exampleBug\<lparr>status := ''Accepted''\<rparr>, exampleBug\<lparr>status := ''Not Applicable''\<rparr>] []) = 50"
proof -
  let ?l = "[exampleBug, exampleBug\<lparr>status := ''Duplicate''\<rparr>, exampleBug\<lparr>status := ''Draft''\<rparr>,
         exampleBug\<lparr>status := ''Accepted''\<rparr>, exampleBug\<lparr>status := ''Not Applicable''\<rparr>]"
  have "acceptedBugs (calculateStats exampleNow ?l []) = 2"
       "rejectedBugs (calculateStats exampleNow ?l []) = 2"
    using successRate_formula[of exampleNow ?l "[]"] by (simp_all add: exampleBug_def)
  then show ?thesis
    using successRate_formula[of exampleNow ?l "[]"] by simp
qed

text \<open>
  Claim C8. \<open>avgTimeToResolution\<close> is the arithmetic mean, over exactly the records with
  both a submission date and a resolution date, of the ceiling of the difference of the
  two dates in days, and 0 when there is no such record. No day count is clamped: a
  resolution before the submission counts with its negative number of days.
\<close>

theorem avgTimeToResolution_mean:
  fixes now :: int and filteredBugs allBugs :: "BugData list"
  defines "days \<equiv> List.map_filter
     (\<lambda>bug. case (submission_date bug, resolution_date bug) of
               (Some sub, Some res) \<Rightarrow> Some \<lceil>real_of_int (res - sub) / 86400000\<rceil>
             | _ \<Rightarrow> None) filteredBugs"
  shows "avgTimeToResolution (calculateStats now filteredBugs allBugs)
           = (if days = [] then 0 else real_of_int (sum_list days) / real (length days))"
proof -
  let ?both = "\<lambda>bug. submission_date bug \<noteq> None \<and> resolution_date bug \<noteq> None"
  have m: "map resolutionDays (filter ?both xs)
             = List.map_filter
                 (\<lambda>bug. case (submission_date bug, resolution_date bug) of
                           (Some sub, Some res) \<Rightarrow> Some \<lceil>real_of_int (res - sub) / 86400000\<rceil>
                         | _ \<Rightarrow> None) xs" for xs
    by (induction xs)
       (auto simp: resolutionDays_def getTime_def split: option.splits)
  have d: "days = map resolutionDays (filter ?both filteredBugs)"
    by (simp only: days_def m)
  have f: "foldl (\<lambda>sum bug. sum + resolutionDays bug) 0 (filter ?both filteredBugs) = sum_list days"
    by (simp add: foldl_add_sum_list d)
  have l: "length (filter ?both filteredBugs) = length days"
    by (simp add: d)
  have "avgTimeToResolution (calculateStats now filteredBugs allBugs)
          = (if length days > 0 then real_of_int (sum_list days) / real (length days) else 0)"
    unfolding calculateStats_def Let_def f l by simp
  then show ?thesis by simp
qed

theorem avgTimeToResolution_mean_witness:
  "avgTimeToResolution
     (calculateStats exampleNow
        [exampleBug\<lparr>submission_date := Some 864000000, resolution_date := Some 345600001\<rparr>,
         exampleBug\<lparr>submission_date := Some 0\<rparr>,
         exampleBug\<lparr>submission_date := Some 0, resolution_date := Some 86400001\<rparr>] []) = - 3 / 2"
  by (simp add: avgTimeToResolution_mean exampleBug_def)

section \<open>Calendar-bucketed earnings\<close>








section \<open>Plain objects as dictionaries\<close>

lemma encounterOrder_snoc:
  "encounterOrder (xs @ [x]) = (if x \<in> set xs then encounterOrder xs else encounterOrder xs @ [x])"
  by (simp add: encounterOrder_def)

lemma set_encounterOrder: "set (encounterOrder xs) = set xs"
  by (simp add: encounterOrder_def)

lemma distinct_encounterOrder: "distinct (encounterOrder xs)"
  by (simp add: encounterOrder_def)

lemma update_at_keyed:
  "update_at (map (\<lambda>k. (k, g k)) ks) k0 f = map (\<lambda>k. (k, if k = k0 then f (g k) else g k)) ks"
  by (induction ks) (simp_all add: update_at_def)

lemma map_of_keyed:
  "map_of (map (\<lambda>k. (k, g k)) ks) k0 = (if k0 \<in> set ks then Some (g k0) else None)"
  by (induction ks) simp_all

text \<open>The grouping loop shared by \<open>calculatePlatformData\<close> and \<open>calculateTopPrograms\<close>:
  the object holds one property per group key that is not inherited from the prototype,
  in encounter order, and its value is the accumulator started by the group's first record
  and updated with every record of the group.\<close>

lemma group_fold:
  fixes key :: "'b \<Rightarrow> string" and init :: "'b \<Rightarrow> 'v" and upd :: "'b \<Rightarrow> 'v \<Rightarrow> 'v"
  assumes step: "\<And>m b. step m b =
     update_at (if \<not> truthy_at m (key b) then assign m (key b) (init b) else m) (key b) (upd b)"
  shows "foldl step [] bs =
     map (\<lambda>k. (k, foldl (\<lambda>e b. upd b e) (init (hd (filter (\<lambda>b. key b = k) bs)))
                   (filter (\<lambda>b. key b = k) bs)))
       (encounterOrder (filter (\<lambda>k. k \<notin> set Object_prototype_keys) (map key bs)))"
proof (induction bs rule: rev_induct)
  case Nil
  show ?case by (simp add: encounterOrder_def)
next
  case (snoc b bs)
  define V where "V k xs = foldl (\<lambda>e b. upd b e) (init (hd (filter (\<lambda>b. key b = k) xs)))
                   (filter (\<lambda>b. key b = k) xs)" for k xs
  define K where "K xs = encounterOrder (filter (\<lambda>k. k \<notin> set Object_prototype_keys) (map key xs))" for xs
  let ?k0 = "key b"
  have IH: "foldl step [] bs = map (\<lambda>k. (k, V k bs)) (K bs)"
    using snoc by (simp add: V_def K_def)
  have setK: "set (K xs) = {k \<in> key ` set xs. k \<notin> set Object_prototype_keys}" for xs
    by (auto simp: K_def set_encounterOrder)
  have Vother: "V k (bs @ [b]) = V k bs" if "k \<noteq> ?k0" for k
    using that by (simp add: V_def)
  have own: "map_of (map (\<lambda>k. (k, V k bs)) (K bs)) ?k0 \<noteq> None \<longleftrightarrow> ?k0 \<in> set (K bs)"
    by (simp add: map_of_keyed)
  have goal: "step (map (\<lambda>k. (k, V k bs)) (K bs)) b = map (\<lambda>k. (k, V k (bs @ [b]))) (K (bs @ [b]))"
  proof (cases "?k0 \<in> set Object_prototype_keys")
    case True
    then have notin: "?k0 \<notin> set (K bs)" by (simp add: setK)
    have K': "K (bs @ [b]) = K bs" using True by (simp add: K_def)
    have "step (map (\<lambda>k. (k, V k bs)) (K bs)) b
            = map (\<lambda>k. (k, if k = ?k0 then upd b (V k bs) else V k bs)) (K bs)"
      using True by (simp add: step truthy_at_def update_at_keyed)
    also have "\<dots> = map (\<lambda>k. (k, V k (bs @ [b]))) (K bs)"
      using notin by (intro map_cong refl) (auto simp: Vother)
    finally show ?thesis by (simp add: K')
  next
    case False
    show ?thesis
    proof (cases "?k0 \<in> key ` set bs")
      case True
      then have inK: "?k0 \<in> set (K bs)" using False by (simp add: setK)
      have K': "K (bs @ [b]) = K bs"
        using True False by (simp add: K_def encounterOrder_snoc)
      have ne: "filter (\<lambda>x. key x = ?k0) bs \<noteq> []"
        using True by (auto simp: filter_empty_conv)
      have Vk0: "V ?k0 (bs @ [b]) = upd b (V ?k0 bs)"
        using ne by (simp add: V_def)
      have "step (map (\<lambda>k. (k, V k bs)) (K bs)) b
              = map (\<lambda>k. (k, if k = ?k0 then upd b (V k bs) else V k bs)) (K bs)"
        using inK by (simp add: step truthy_at_def map_of_keyed update_at_keyed)
      also have "\<dots> = map (\<lambda>k. (k, V k (bs @ [b]))) (K bs)"
        by (intro map_cong refl) (auto simp: Vother Vk0)
      finally show ?thesis by (simp add: K')
    next
      case notseen: False
      then have notin: "?k0 \<notin> set (K bs)" by (simp add: setK)
      have K': "K (bs @ [b]) = K bs @ [?k0]"
        using notseen False by (simp add: K_def encounterOrder_snoc)
      have "\<forall>x\<in>set bs. key x \<noteq> ?k0" using notseen by (metis imageI)
      then have e: "filter (\<lambda>x. key x = ?k0) bs = []"
        by (simp add: filter_empty_conv)
      have Vk0: "V ?k0 (bs @ [b]) = upd b (init b)"
        by (simp add: V_def e)
      have "step (map (\<lambda>k. (k, V k bs)) (K bs)) b
              = update_at (map (\<lambda>k. (k, V k bs)) (K bs) @ [(?k0, init b)]) ?k0 (upd b)"
        using notin False
        by (simp add: step truthy_at_def map_of_keyed assign_def create_property_def)
      also have "\<dots> = map (\<lambda>k. (k, if k = ?k0 then upd b (V k bs) else V k bs)) (K bs)
                         @ [(?k0, upd b (init b))]"
        using update_at_keyed[of "\<lambda>k. V k bs" "K bs" ?k0 "upd b"] by (simp add: update_at_def)
      also have "map (\<lambda>k. (k, if k = ?k0 then upd b (V k bs) else V k bs)) (K bs)
                   = map (\<lambda>k. (k, V k (bs @ [b]))) (K bs)"
        using notin by (intro map_cong refl) (auto simp: Vother)
      finally show ?thesis by (simp add: K' Vk0)
    qed
  qed
  show ?case
    using goal by (simp add: IH V_def K_def)
qed


lemma insort_key_map: "insort_key f (h x) (map h xs) = map h (insort_key (\<lambda>a. f (h a)) x xs)"
  by (induction xs) simp_all

lemma sort_key_map: "sort_key f (map h xs) = map h (sort_key (\<lambda>a. f (h a)) xs)"
  by (induction xs) (simp_all add: insort_key_map)

lemma Object_entries_keyed:
  "Object_entries (map (\<lambda>k. (k, g k)) ks) = map (\<lambda>k. (k, g k)) (propertyOrder ks)"
  by (simp add: Object_entries_def propertyOrder_def filter_map sort_key_map comp_def)

lemma set_propertyOrder: "set (propertyOrder ks) = set ks"
  by (auto simp: propertyOrder_def)

lemma mset_propertyOrder: "mset (propertyOrder ks) = mset ks"
  by (simp add: propertyOrder_def)

section \<open>Program Leaderboard\<close>

lemma program_update_fold:
  "ProgramAcc.company (foldl (\<lambda>e bug. program_update bug e) e0 xs) = ProgramAcc.company e0"
  "ProgramAcc.bugs (foldl (\<lambda>e bug. program_update bug e) e0 xs) = ProgramAcc.bugs e0 + length xs"
  "ProgramAcc.earnings (foldl (\<lambda>e bug. program_update bug e) e0 xs)
     = ProgramAcc.earnings e0 + sum_list (map bounty xs)"
  by (induction xs arbitrary: e0) (simp_all add: program_update_def)

lemma programMap_fold:
  "foldl program_forEach [] bs
     = map (\<lambda>k. (k, programGroup bs k))
         (encounterOrder (filter (\<lambda>k. k \<notin> set Object_prototype_keys) (map programName bs)))"
  unfolding programGroup_def
  by (rule group_fold[where key = programName and upd = program_update
        and init = "\<lambda>bug. \<lparr> ProgramAcc.company = programCompany bug,
                   ProgramAcc.bugs = 0, ProgramAcc.earnings = 0,
                   ProgramAcc.accepted = 0, ProgramAcc.total = 0 \<rparr>"])
     (simp add: program_forEach_def Let_def)

lemma programEntries:
  "map to_ProgramData (Object_entries (foldl program_forEach [] bs))
     = map (\<lambda>k. to_ProgramData (k, programGroup bs k))
         (propertyOrder (encounterOrder
            (filter (\<lambda>k. k \<notin> set Object_prototype_keys) (map programName bs))))"
  by (simp add: programMap_fold Object_entries_keyed comp_def)

lemma to_ProgramData_group:
  "ProgramData.name (to_ProgramData (k, programGroup bs k)) = k"
  "ProgramData.company (to_ProgramData (k, programGroup bs k))
     = programCompany (hd (filter (\<lambda>bug. programName bug = k) bs))"
  "ProgramData.bugs (to_ProgramData (k, programGroup bs k))
     = length (filter (\<lambda>bug. programName bug = k) bs)"
  "ProgramData.earnings (to_ProgramData (k, programGroup bs k))
     = sum_list (map bounty (filter (\<lambda>bug. programName bug = k) bs))"
  by (simp_all add: to_ProgramData_def programGroup_def program_update_fold)

lemma calculateTopPrograms_entries:
  "\<exists>ks. set ks \<subseteq> set (map programName bs)
      \<and> calculateTopPrograms bs = map (\<lambda>k. to_ProgramData (k, programGroup bs k)) ks"
proof -
  let ?K = "propertyOrder (encounterOrder
            (filter (\<lambda>k. k \<notin> set Object_prototype_keys) (map programName bs)))"
  let ?h = "\<lambda>k. to_ProgramData (k, programGroup bs k)"
  let ?ks = "take 5 (sort_key (\<lambda>k. - ProgramData.earnings (?h k)) ?K)"
  have "calculateTopPrograms bs = take 5 (sort_key (\<lambda>d. - ProgramData.earnings d) (map ?h ?K))"
    by (simp add: calculateTopPrograms_def Let_def programEntries)
  then have "calculateTopPrograms bs = map ?h ?ks"
    by (simp only: sort_key_map take_map)
  moreover have "set ?ks \<subseteq> set (map programName bs)"
  proof
    fix k assume "k \<in> set ?ks"
    then have "k \<in> set (sort_key (\<lambda>k. - ProgramData.earnings (?h k)) ?K)"
      by (rule in_set_takeD)
    then show "k \<in> set (map programName bs)"
      by (auto simp: set_propertyOrder set_encounterOrder)
  qed
  ultimately show ?thesis by blast
qed

text \<open>
  Claim C3 as stated fails: the company of a group is not the last-seen value. Two
  records of the program name \<^verbatim>\<open>api.example.com\<close>, the first with company
  \<^verbatim>\<open>Example Inc\<close>, the second with \<^verbatim>\<open>Example Ltd\<close>: the leaderboard shows
  \<^verbatim>\<open>Example Inc\<close>, while the last-seen value is \<^verbatim>\<open>Example Ltd\<close>.
\<close>

theorem company_last_seen_counterexample:
  "map ProgramData.company (calculateTopPrograms
      [inProgram ''api.example.com'' ''Example Inc'' ''HackerOne'' exampleBug,
       inProgram ''api.example.com'' ''Example Ltd'' ''Bugcrowd'' exampleBug]) = [''Example Inc'']
   \<and> lastSeenCompany
      [inProgram ''api.example.com'' ''Example Inc'' ''HackerOne'' exampleBug,
       inProgram ''api.example.com'' ''Example Ltd'' ''Bugcrowd'' exampleBug] ''api.example.com''
     = Some ''Example Ltd''"
  by code_simp

text \<open>
  Claim C3, amended. For every input collection, the company recorded for each
  program-name group of the leaderboard is the company value of the first record of
  that group in encounter order (first-seen wins): the source sets the company only
  where it creates the accumulator of the group.
\<close>

theorem company_first_seen:
  "(\<forall>(k, e) \<in> set (foldl program_forEach [] bugList).
      firstSeenCompany bugList k = Some (ProgramAcc.company e))
   \<and> (\<forall>d \<in> set (calculateTopPrograms bugList).
      firstSeenCompany bugList (ProgramData.name d) = Some (ProgramData.company d))"
proof -
  have first: "firstSeenCompany bugList k
                 = Some (programCompany (hd (filter (\<lambda>bug. programName bug = k) bugList)))"
    if "k \<in> set (map programName bugList)" for k
  proof -
    from that obtain b where "b \<in> set bugList" "programName b = k" by auto
    then have "filter (\<lambda>bug. programName bug = k) bugList \<noteq> []"
      by (auto simp: filter_empty_conv)
    then obtain x xs where "filter (\<lambda>bug. programName bug = k) bugList = x # xs"
      by (cases "filter (\<lambda>bug. programName bug = k) bugList") auto
    then show ?thesis by (simp add: firstSeenCompany_def)
  qed
  have groups: "\<forall>(k, e) \<in> set (foldl program_forEach [] bugList).
      firstSeenCompany bugList k = Some (ProgramAcc.company e)"
  proof (clarify)
    fix k e assume "(k, e) \<in> set (foldl program_forEach [] bugList)"
    then have k: "k \<in> set (map programName bugList)" and e: "e = programGroup bugList k"
      by (auto simp: programMap_fold set_encounterOrder)
    show "firstSeenCompany bugList k = Some (ProgramAcc.company e)"
      unfolding e first[OF k] by (simp add: programGroup_def program_update_fold)
  qed
  have out: "\<forall>d \<in> set (calculateTopPrograms bugList).
      firstSeenCompany bugList (ProgramData.name d) = Some (ProgramData.company d)"
  proof
    fix d assume d: "d \<in> set (calculateTopPrograms bugList)"
    obtain ks where ks: "set ks \<subseteq> set (map programName bugList)"
        "calculateTopPrograms bugList = map (\<lambda>k. to_ProgramData (k, programGroup bugList k)) ks"
      using calculateTopPrograms_entries by blast
    from d obtain k where k: "k \<in> set ks" and dk: "d = to_ProgramData (k, programGroup bugList k)"
      unfolding ks(2) by auto
    from k ks(1) have "k \<in> set (map programName bugList)" by blast
    then show "firstSeenCompany bugList (ProgramData.name d) = Some (ProgramData.company d)"
      unfolding dk to_ProgramData_group by (rule first)
  qed
  show ?thesis using groups out by (rule conjI)
qed

theorem company_first_seen_witness:
  "firstSeenCompany
      [inProgram ''api.example.com'' ''Example Inc'' ''HackerOne'' exampleBug,
       inProgram ''shop.example.com'' ''Example Inc'' ''HackerOne'' exampleBug,
       inProgram ''api.example.com'' ''Example Ltd'' ''Bugcrowd'' exampleBug]
      (ProgramData.name (hd (calculateTopPrograms
      [inProgram ''api.example.com'' ''Example Inc'' ''HackerOne'' exampleBug,
       inProgram ''shop.example.com'' ''Example Inc'' ''HackerOne'' exampleBug,
       inProgram ''api.example.com'' ''Example Ltd'' ''Bugcrowd'' exampleBug])))
     = Some (ProgramData.company (hd (calculateTopPrograms
      [inProgram ''api.example.com'' ''Example Inc'' ''HackerOne'' exampleBug,
       inProgram ''shop.example.com'' ''Example Inc'' ''HackerOne'' exampleBug,
       inProgram ''api.example.com'' ''Example Ltd'' ''Bugcrowd'' exampleBug])))
   \<and> map ProgramData.name (calculateTopPrograms
      [inProgram ''api.example.com'' ''Example Inc'' ''HackerOne'' exampleBug,
       inProgram ''shop.example.com'' ''Example Inc'' ''HackerOne'' exampleBug,
       inProgram ''api.example.com'' ''Example Ltd'' ''Bugcrowd'' exampleBug])
     = [''api.example.com'', ''shop.example.com'']
   \<and> map ProgramData.company (calculateTopPrograms
      [inProgram ''api.example.com'' ''Example Inc'' ''HackerOne'' exampleBug,
       inProgram ''shop.example.com'' ''Example Inc'' ''HackerOne'' exampleBug,
       inProgram ''api.example.com'' ''Example Ltd'' ''Bugcrowd'' exampleBug])
     = [''Example Inc'', ''Example Inc'']"
proof -
  let ?l = "[inProgram ''api.example.com'' ''Example Inc'' ''HackerOne'' exampleBug,
       inProgram ''shop.example.com'' ''Example Inc'' ''HackerOne'' exampleBug,
       inProgram ''api.example.com'' ''Example Ltd'' ''Bugcrowd'' exampleBug]"
  have "calculateTopPrograms ?l \<noteq> []" by code_simp
  then have "hd (calculateTopPrograms ?l) \<in> set (calculateTopPrograms ?l)" by (rule hd_in_set)
  then have "firstSeenCompany ?l (ProgramData.name (hd (calculateTopPrograms ?l)))
     = Some (ProgramData.company (hd (calculateTopPrograms ?l)))"
    using company_first_seen[of ?l] by blast
  moreover have "map ProgramData.name (calculateTopPrograms ?l)
     = [''api.example.com'', ''shop.example.com'']"
    by code_simp
  moreover have "map ProgramData.company (calculateTopPrograms ?l) = [''Example Inc'', ''Example Inc'']"
    by code_simp
  ultimately show ?thesis by (intro conjI)
qed

text \<open>
  Claim C9 as stated fails in its tie-break. Two programs named \<^verbatim>\<open>1337\<close> and
  \<^verbatim>\<open>404\<close>, met in this order, with equal earnings: the leaderboard lists \<^verbatim>\<open>404\<close>
  first, because \<^verbatim>\<open>Object.entries\<close> lists array-index keys in ascending numeric order
  before all other keys.
\<close>

theorem leaderboard_tie_order_counterexample:
  "map ProgramData.name (calculateTopPrograms
      [inProgram ''1337'' ''Leet'' ''HackerOne'' exampleBug,
       inProgram ''404'' ''Lost'' ''HackerOne'' exampleBug]) = [''404'', ''1337'']
   \<and> map ProgramData.earnings (calculateTopPrograms
      [inProgram ''1337'' ''Leet'' ''HackerOne'' exampleBug,
       inProgram ''404'' ''Lost'' ''HackerOne'' exampleBug]) = [500, 500]
   \<and> encounterOrder (map programName
      [inProgram ''1337'' ''Leet'' ''HackerOne'' exampleBug,
       inProgram ''404'' ''Lost'' ''HackerOne'' exampleBug]) = [''1337'', ''404'']"
  by code_simp

text \<open>
  Claim C9, amended. For every input collection, the Program Leaderboard has length at
  most 5 and is sorted non-increasing by per-group earnings; groups with equal earnings
  keep the order in which \<^verbatim>\<open>Object.entries\<close> lists the groups of \<^verbatim>\<open>programMap\<close>:
  the program names that are array indices in ascending numeric order, then the other
  names in encounter order (the sort is stable).
\<close>

theorem leaderboard_order:
  fixes bugList :: "BugData list"
  defines "out \<equiv> calculateTopPrograms bugList"
  shows "length out \<le> 5
       \<and> sorted_wrt (\<lambda>a b. ProgramData.earnings a \<ge> ProgramData.earnings b) out
       \<and> (\<forall>e. subseq (map ProgramData.name (filter (\<lambda>d. ProgramData.earnings d = e) out))
              (propertyOrder (encounterOrder
                 (filter (\<lambda>k. k \<notin> set Object_prototype_keys) (map programName bugList)))))"
proof -
  let ?K = "propertyOrder (encounterOrder
            (filter (\<lambda>k. k \<notin> set Object_prototype_keys) (map programName bugList)))"
  let ?h = "\<lambda>k. to_ProgramData (k, programGroup bugList k)"
  let ?f = "\<lambda>d. - ProgramData.earnings d"
  let ?G = "map ?h ?K"
  have out: "out = take 5 (sort_key ?f ?G)"
    by (simp add: out_def calculateTopPrograms_def Let_def programEntries)
  have len: "length out \<le> 5" by (simp add: out)
  have "sorted (map ?f (sort_key ?f ?G))" by (rule sorted_sort_key)
  then have "sorted_wrt (\<lambda>a b. ?f a \<le> ?f b) (sort_key ?f ?G)"
    by (simp add: sorted_wrt_map)
  then have "sorted_wrt (\<lambda>a b. ?f a \<le> ?f b) out"
    unfolding out by (rule sorted_wrt_take)
  then have srt: "sorted_wrt (\<lambda>a b. ProgramData.earnings a \<ge> ProgramData.earnings b) out"
    by simp
  have names: "map ProgramData.name ?G = ?K"
    by (simp add: comp_def to_ProgramData_group)
  have stab: "subseq (map ProgramData.name (filter (\<lambda>d. ProgramData.earnings d = e) out)) ?K" for e
  proof -
    have eq: "(\<lambda>d. ProgramData.earnings d = e) = (\<lambda>d. ?f d = - e)" by auto
    have "prefix out (sort_key ?f ?G)" unfolding out by (rule take_is_prefix)
    then have "prefix (filter (\<lambda>d. ?f d = - e) out) (filter (\<lambda>d. ?f d = - e) (sort_key ?f ?G))"
      by (rule filter_mono_prefix)
    then have "prefix (filter (\<lambda>d. ?f d = - e) out) (filter (\<lambda>d. ?f d = - e) ?G)"
      by (simp only: sort_key_stable)
    then have "subseq (filter (\<lambda>d. ?f d = - e) out) (filter (\<lambda>d. ?f d = - e) ?G)"
      by (rule prefix_imp_subseq)
    moreover have "subseq (filter (\<lambda>d. ?f d = - e) ?G) ?G" by (rule subseq_filter_left)
    ultimately have "subseq (filter (\<lambda>d. ?f d = - e) out) ?G"
      by (rule subseq_order.trans)
    then have "subseq (map ProgramData.name (filter (\<lambda>d. ?f d = - e) out)) (map ProgramData.name ?G)"
      by (rule subseq_map)
    then show ?thesis unfolding names eq .
  qed
  show ?thesis using len srt stab by blast
qed

theorem leaderboard_order_witness:
  "length (calculateTopPrograms
      [inProgram ''zeta'' ''Z'' ''HackerOne'' exampleBug,
       inProgram ''alpha'' ''A'' ''HackerOne'' exampleBug,
       inProgram ''7'' ''S'' ''HackerOne'' exampleBug,
       inProgram ''beta'' ''B'' ''HackerOne'' (exampleBug\<lparr>bounty_amount := Some 900\<rparr>),
       inProgram ''3'' ''T'' ''HackerOne'' exampleBug,
       inProgram ''gamma'' ''G'' ''HackerOne'' (exampleBug\<lparr>bounty_amount := Some 100\<rparr>),
       inProgram ''delta'' ''D'' ''HackerOne'' exampleBug]) \<le> 5
   \<and> map ProgramData.name (calculateTopPrograms
      [inProgram ''zeta'' ''Z'' ''HackerOne'' exampleBug,
       inProgram ''alpha'' ''A'' ''HackerOne'' exampleBug,
       inProgram ''7'' ''S'' ''HackerOne'' exampleBug,
       inProgram ''beta'' ''B'' ''HackerOne'' (exampleBug\<lparr>bounty_amount := Some 900\<rparr>),
       inProgram ''3'' ''T'' ''HackerOne'' exampleBug,
       inProgram ''gamma'' ''G'' ''HackerOne'' (exampleBug\<lparr>bounty_amount := Some 100\<rparr>),
       inProgram ''delta'' ''D'' ''HackerOne'' exampleBug])
     = [''beta'', ''3'', ''7'', ''zeta'', ''alpha'']
   \<and> propertyOrder (encounterOrder (filter (\<lambda>k. k \<notin> set Object_prototype_keys) (map programName
      [inProgram ''zeta'' ''Z'' ''HackerOne'' exampleBug,
       inProgram ''alpha'' ''A'' ''HackerOne'' exampleBug,
       inProgram ''7'' ''S'' ''HackerOne'' exampleBug,
       inProgram ''beta'' ''B'' ''HackerOne'' (exampleBug\<lparr>bounty_amount := Some 900\<rparr>),
       inProgram ''3'' ''T'' ''HackerOne'' exampleBug,
       inProgram ''gamma'' ''G'' ''HackerOne'' (exampleBug\<lparr>bounty_amount := Some 100\<rparr>),
       inProgram ''delta'' ''D'' ''HackerOne'' exampleBug])))
     = [''3'', ''7'', ''zeta'', ''alpha'', ''beta'', ''gamma'', ''delta'']"
proof -
  let ?l = "[inProgram ''zeta'' ''Z'' ''HackerOne'' exampleBug,
       inProgram ''alpha'' ''A'' ''HackerOne'' exampleBug,
       inProgram ''7'' ''S'' ''HackerOne'' exampleBug,
       inProgram ''beta'' ''B'' ''HackerOne'' (exampleBug\<lparr>bounty_amount := Some 900\<rparr>),
       inProgram ''3'' ''T'' ''HackerOne'' exampleBug,
       inProgram ''gamma'' ''G'' ''HackerOne'' (exampleBug\<lparr>bounty_amount := Some 100\<rparr>),
       inProgram ''delta'' ''D'' ''HackerOne'' exampleBug]"
  have "length (calculateTopPrograms ?l) \<le> 5"
    using leaderboard_order[of ?l] by blast
  moreover have "map ProgramData.name (calculateTopPrograms ?l)
     = [''beta'', ''3'', ''7'', ''zeta'', ''alpha'']"
    by code_simp
  moreover have "propertyOrder (encounterOrder (filter (\<lambda>k. k \<notin> set Object_prototype_keys)
        (map programName ?l)))
     = [''3'', ''7'', ''zeta'', ''alpha'', ''beta'', ''gamma'', ''delta'']"
    by code_simp
  ultimately show ?thesis by (intro conjI)
qed

section \<open>Platform Rollup\<close>

lemma platform_update_fold:
  "PlatformAcc.bugs (foldl (\<lambda>e bug. platform_update bug e) e0 xs) = PlatformAcc.bugs e0 + length xs"
  "PlatformAcc.earnings (foldl (\<lambda>e bug. platform_update bug e) e0 xs)
     = PlatformAcc.earnings e0 + sum_list (map bounty xs)"
  by (induction xs arbitrary: e0) (simp_all add: platform_update_def)

lemma platformMap_fold:
  "foldl platform_forEach [] bs
     = map (\<lambda>k. (k, platformGroup bs k))
         (encounterOrder (filter (\<lambda>k. k \<notin> set Object_prototype_keys) (map platformName bs)))"
  unfolding platformGroup_def
  by (rule group_fold[where key = platformName and upd = platform_update
        and init = "\<lambda>bug. \<lparr> PlatformAcc.bugs = 0, PlatformAcc.earnings = 0,
                   PlatformAcc.accepted = 0, PlatformAcc.total = 0 \<rparr>"])
     (simp add: platform_forEach_def Let_def)

lemma to_PlatformData_group:
  "PlatformData.name (to_PlatformData (k, platformGroup bs k)) = k"
  "PlatformData.bugs (to_PlatformData (k, platformGroup bs k))
     = length (filter (\<lambda>bug. platformName bug = k) bs)"
  "PlatformData.earnings (to_PlatformData (k, platformGroup bs k))
     = sum_list (map bounty (filter (\<lambda>bug. platformName bug = k) bs))"
  by (simp_all add: to_PlatformData_def platformGroup_def platform_update_fold)

lemma calculatePlatformData_groups:
  "calculatePlatformData bs
     = sort_key (\<lambda>d. - PlatformData.earnings d)
         (map (\<lambda>k. to_PlatformData (k, platformGroup bs k))
            (propertyOrder (encounterOrder
               (filter (\<lambda>k. k \<notin> set Object_prototype_keys) (map platformName bs)))))"
  by (simp add: calculatePlatformData_def Let_def platformMap_fold Object_entries_keyed comp_def)

text \<open>Summing over the groups of a list is summing over the list.\<close>

lemma sum_by_group:
  fixes f :: "'a \<Rightarrow> 'c::comm_monoid_add"
  shows "(\<Sum>k \<in> key ` set bs. sum_list (map f (filter (\<lambda>b. key b = k) bs))) = sum_list (map f bs)"
proof (induction bs)
  case Nil
  show ?case by simp
next
  case (Cons b bs)
  let ?S = "key ` set bs"
  let ?g = "\<lambda>k. sum_list (map f (filter (\<lambda>x. key x = k) bs))"
  have g0: "?g k = 0" if "k \<notin> ?S" for k
  proof -
    have "\<forall>x \<in> set bs. key x \<noteq> k" using that by (metis imageI)
    then have "filter (\<lambda>x. key x = k) bs = []" by (simp add: filter_empty_conv)
    then show ?thesis by simp
  qed
  have "(\<Sum>k \<in> key ` set (b # bs). sum_list (map f (filter (\<lambda>x. key x = k) (b # bs))))
          = (\<Sum>k \<in> insert (key b) ?S. (if k = key b then f b else 0) + ?g k)"
    by (intro sum.cong) auto
  also have "\<dots> = (\<Sum>k \<in> insert (key b) ?S. if k = key b then f b else 0)
                     + (\<Sum>k \<in> insert (key b) ?S. ?g k)"
    by (rule sum.distrib)
  also have "(\<Sum>k \<in> insert (key b) ?S. if k = key b then f b else 0) = f b"
    by simp
  also have "(\<Sum>k \<in> insert (key b) ?S. ?g k) = (\<Sum>k \<in> ?S. ?g k)"
  proof (cases "key b \<in> ?S")
    case True
    then show ?thesis by (simp add: insert_absorb)
  next
    case False
    then show ?thesis by (simp add: g0)
  qed
  also have "(\<Sum>k \<in> ?S. ?g k) = sum_list (map f bs)" by (rule Cons)
  finally show ?case by simp
qed

lemma sum_list_sort_key:
  fixes g :: "'a \<Rightarrow> 'c::comm_monoid_add"
  shows "sum_list (map g (sort_key f xs)) = sum_list (map g xs)"
proof -
  have "mset (map g (sort_key f xs)) = mset (map g xs)" by simp
  then show ?thesis by (metis sum_mset_sum_list)
qed

lemma sum_list_propertyOrder:
  fixes g :: "string \<Rightarrow> 'c::comm_monoid_add"
  shows "sum_list (map g (propertyOrder ks)) = sum_list (map g ks)"
proof -
  have "mset (map g (propertyOrder ks)) = mset (map g ks)" by (simp add: mset_propertyOrder)
  then show ?thesis by (metis sum_mset_sum_list)
qed

text \<open>The sum over the platform groups of a quantity summed per group is the sum of
  that quantity over the records whose platform name is not inherited from
  \<open>Object.prototype\<close>.\<close>

lemma platform_group_sum:
  fixes f :: "BugData \<Rightarrow> 'c::comm_monoid_add"
  defines "own \<equiv> filter (\<lambda>bug. platformName bug \<notin> set Object_prototype_keys)"
  shows "sum_list (map (\<lambda>k. sum_list (map f (filter (\<lambda>bug. platformName bug = k) bs)))
           (encounterOrder (filter (\<lambda>k. k \<notin> set Object_prototype_keys) (map platformName bs))))
         = sum_list (map f (own bs))"
proof -
  let ?K = "encounterOrder (filter (\<lambda>k. k \<notin> set Object_prototype_keys) (map platformName bs))"
  have setK: "set ?K = platformName ` set (own bs)"
    by (auto simp: set_encounterOrder own_def)
  have same: "filter (\<lambda>bug. platformName bug = k) bs = filter (\<lambda>bug. platformName bug = k) (own bs)"
    if "k \<in> set ?K" for k
  proof -
    have "k \<notin> set Object_prototype_keys" using that by (auto simp: set_encounterOrder)
    then show ?thesis unfolding own_def filter_filter by (intro filter_cong refl) auto
  qed
  have "sum_list (map (\<lambda>k. sum_list (map f (filter (\<lambda>bug. platformName bug = k) bs))) ?K)
          = (\<Sum>k \<in> set ?K. sum_list (map f (filter (\<lambda>bug. platformName bug = k) bs)))"
    by (rule sum_list_distinct_conv_sum_set) (rule distinct_encounterOrder)
  also have "\<dots> = (\<Sum>k \<in> set ?K. sum_list (map f (filter (\<lambda>bug. platformName bug = k) (own bs))))"
    by (intro sum.cong refl) (simp add: same)
  also have "\<dots> = sum_list (map f (own bs))"
    unfolding setK by (rule sum_by_group)
  finally show ?thesis .
qed

text \<open>What the Platform Rollup does satisfy: the bug counts of the groups add up to
  the number of records whose platform name is not a property name inherited from
  \<open>Object.prototype\<close>, the earnings of the groups to the bounties of those records, and
  every group has at least one record.\<close>

lemma platform_rollup_bugs:
  "sum_list (map PlatformData.bugs (calculatePlatformData bs))
     = length (filter (\<lambda>bug. platformName bug \<notin> set Object_prototype_keys) bs)"
proof -
  have "sum_list (map PlatformData.bugs (calculatePlatformData bs))
          = sum_list (map (\<lambda>k. sum_list (map (\<lambda>bug. 1::nat) (filter (\<lambda>bug. platformName bug = k) bs)))
              (encounterOrder (filter (\<lambda>k. k \<notin> set Object_prototype_keys) (map platformName bs))))"
    by (simp add: calculatePlatformData_groups sum_list_sort_key comp_def to_PlatformData_group
        sum_list_propertyOrder sum_list_triv)
  also have "\<dots> = sum_list (map (\<lambda>bug. 1::nat)
                      (filter (\<lambda>bug. platformName bug \<notin> set Object_prototype_keys) bs))"
    by (rule platform_group_sum)
  finally show ?thesis by (simp add: sum_list_triv)
qed

lemma platform_rollup_earnings:
  "sum_list (map PlatformData.earnings (calculatePlatformData bs))
     = sum_list (map bounty (filter (\<lambda>bug. platformName bug \<notin> set Object_prototype_keys) bs))"
proof -
  have "sum_list (map PlatformData.earnings (calculatePlatformData bs))
          = sum_list (map (\<lambda>k. sum_list (map bounty (filter (\<lambda>bug. platformName bug = k) bs)))
              (encounterOrder (filter (\<lambda>k. k \<notin> set Object_prototype_keys) (map platformName bs))))"
    by (simp add: calculatePlatformData_groups sum_list_sort_key comp_def to_PlatformData_group
        sum_list_propertyOrder)
  also have "\<dots> = sum_list (map bounty
                      (filter (\<lambda>bug. platformName bug \<notin> set Object_prototype_keys) bs))"
    by (rule platform_group_sum)
  finally show ?thesis .
qed

lemma platform_rollup_nonempty_groups:
  "\<forall>d \<in> set (calculatePlatformData bs). 1 \<le> PlatformData.bugs d"
proof
  fix d assume "d \<in> set (calculatePlatformData bs)"
  then obtain k where k: "k \<in> platformName ` set bs" and d: "d = to_PlatformData (k, platformGroup bs k)"
    by (auto simp: calculatePlatformData_groups set_propertyOrder set_encounterOrder)
  from k obtain b where "b \<in> set bs" "platformName b = k" by auto
  then have "filter (\<lambda>bug. platformName bug = k) bs \<noteq> []"
    by (auto simp: filter_empty_conv)
  then show "1 \<le> PlatformData.bugs d"
    unfolding d to_PlatformData_group by (simp add: Suc_le_eq)
qed

lemma platform_rollup_partition:
  assumes "\<forall>bug \<in> set bs. platformName bug \<notin> set Object_prototype_keys"
  shows "sum_list (map PlatformData.bugs (calculatePlatformData bs)) = length bs"
    and "sum_list (map PlatformData.earnings (calculatePlatformData bs))
           = totalEarnings (calculateStats now bs allBugs)"
proof -
  have "filter (\<lambda>bug. platformName bug \<notin> set Object_prototype_keys) bs = bs"
    using assms by (simp add: filter_id_conv)
  then show "sum_list (map PlatformData.bugs (calculatePlatformData bs)) = length bs"
    and "sum_list (map PlatformData.earnings (calculatePlatformData bs))
           = totalEarnings (calculateStats now bs allBugs)"
    by (simp_all add: platform_rollup_bugs platform_rollup_earnings calculateStats_def Let_def
        sumBounty_sum_list)
qed

text \<open>
  Claim C10 at a record whose platform is named \<^verbatim>\<open>constructor\<close>. The lookup
  \<^verbatim>\<open>platformMap['constructor']\<close> finds \<^verbatim>\<open>Object.prototype.constructor\<close>, which is
  truthy, so no accumulator is created and the record enters no group. Of two input
  records, the groups count one.
\<close>

theorem platform_counts_inherited_name:
  "map PlatformData.name (calculatePlatformData
      [inProgram ''api.example.com'' ''Example Inc'' ''constructor'' exampleBug,
       inProgram ''shop.example.com'' ''Example Inc'' ''HackerOne'' exampleBug]) = [''HackerOne'']
   \<and> sum_list (map PlatformData.bugs (calculatePlatformData
      [inProgram ''api.example.com'' ''Example Inc'' ''constructor'' exampleBug,
       inProgram ''shop.example.com'' ''Example Inc'' ''HackerOne'' exampleBug])) = 1
   \<and> length
      [inProgram ''api.example.com'' ''Example Inc'' ''constructor'' exampleBug,
       inProgram ''shop.example.com'' ''Example Inc'' ''HackerOne'' exampleBug] = 2"
  by code_simp

text \<open>
  Claim C5 at the same input: the earnings of the groups add up to 500, while
  \<open>totalEarnings\<close> of the same collection is 1000.
\<close>

theorem platform_earnings_inherited_name:
  "sum_list (map PlatformData.earnings (calculatePlatformData
      [inProgram ''api.example.com'' ''Example Inc'' ''constructor'' exampleBug,
       inProgram ''shop.example.com'' ''Example Inc'' ''HackerOne'' exampleBug])) = 500
   \<and> totalEarnings (calculateStats exampleNow
      [inProgram ''api.example.com'' ''Example Inc'' ''constructor'' exampleBug,
       inProgram ''shop.example.com'' ''Example Inc'' ''HackerOne'' exampleBug]
      [inProgram ''api.example.com'' ''Example Inc'' ''constructor'' exampleBug,
       inProgram ''shop.example.com'' ''Example Inc'' ''HackerOne'' exampleBug]) = 1000"
  by code_simp

section \<open>Monthly Series\<close>

subsection \<open>Month labels\<close>

lemma monthYearLabel_cong:
  assumes "y mod 100 = y' mod 100"
  shows "monthYearLabel y m = monthYearLabel y' m"
proof -
  have "y mod 10 = y mod 100 mod 10" "y' mod 10 = y' mod 100 mod 10"
    by (simp_all add: mod_mod_cancel)
  then have "y mod 10 = y' mod 10" using assms by simp
  then show ?thesis using assms by (simp add: monthYearLabel_def)
qed

lemma digitChar_inj:
  assumes "0 \<le> a" "a < 10" "0 \<le> b" "b < 10"
  shows "digitChar a = digitChar b \<longleftrightarrow> a = b"
proof -
  have "distinct ''0123456789''" by simp
  moreover have "nat a < length ''0123456789''" "nat b < length ''0123456789''"
    using assms by simp_all
  ultimately have "(''0123456789'' ! nat a = ''0123456789'' ! nat b) = (nat a = nat b)"
    by (rule nth_eq_iff_index_eq)
  then show ?thesis using assms by (simp add: digitChar_def eq_nat_nat_iff)
qed

lemma monthShort_props: "distinct monthShort" "length monthShort = 12"
  "\<forall>s \<in> set monthShort. length s = 3"
  by (simp_all add: monthShort_def)

lemma monthShort_inj:
  assumes "0 \<le> m" "m < 12" "0 \<le> m'" "m' < 12"
  shows "monthShort ! nat m = monthShort ! nat m' \<longleftrightarrow> m = m'"
proof -
  have "nat m < length monthShort" "nat m' < length monthShort"
    using assms by (simp_all add: monthShort_props)
  then have "(monthShort ! nat m = monthShort ! nat m') = (nat m = nat m')"
    using monthShort_props(1) by (simp add: nth_eq_iff_index_eq)
  then show ?thesis using assms by (simp add: eq_nat_nat_iff)
qed

lemma monthShort_length:
  assumes "0 \<le> m" "m < 12"
  shows "length (monthShort ! nat m) = 3"
  using assms monthShort_props(3) by (simp add: monthShort_props(2))

lemma two_digits_mod100:
  fixes y y' :: int
  shows "((y mod 100) div 10 = (y' mod 100) div 10 \<and> y mod 10 = y' mod 10) \<longleftrightarrow> y mod 100 = y' mod 100"
proof
  assume a: "(y mod 100) div 10 = (y' mod 100) div 10 \<and> y mod 10 = y' mod 10"
  have "y mod 100 = 10 * ((y mod 100) div 10) + (y mod 100) mod 10" by simp
  also have "(y mod 100) mod 10 = y mod 10" by (simp add: mod_mod_cancel)
  also have "10 * ((y mod 100) div 10) + y mod 10 = 10 * ((y' mod 100) div 10) + y' mod 10"
    using a by simp
  also have "y' mod 10 = (y' mod 100) mod 10" by (simp add: mod_mod_cancel)
  also have "10 * ((y' mod 100) div 10) + (y' mod 100) mod 10 = y' mod 100" by simp
  finally show "y mod 100 = y' mod 100" .
next
  assume a: "y mod 100 = y' mod 100"
  have "y mod 10 = y mod 100 mod 10" "y' mod 10 = y' mod 100 mod 10"
    by (simp_all add: mod_mod_cancel)
  then show "(y mod 100) div 10 = (y' mod 100) div 10 \<and> y mod 10 = y' mod 10"
    using a by simp
qed

lemma two_digit_range:
  fixes y :: int
  shows "0 \<le> (y mod 100) div 10" "(y mod 100) div 10 < 10" "0 \<le> y mod 10" "y mod 10 < 10"
proof -
  have r: "0 \<le> y mod 100" "y mod 100 < 100" by simp_all
  have b: "10 * ((y mod 100) div 10) \<le> y mod 100" "y mod 100 < 10 * ((y mod 100) div 10) + 10"
    by (rule div_bounds, simp)+
  show "0 \<le> (y mod 100) div 10" using r(1) b(2) by linarith
  show "(y mod 100) div 10 < 10" using r(2) b(1) by linarith
  show "0 \<le> y mod 10" "y mod 10 < 10" by simp_all
qed

text \<open>Two labels agree exactly when the months agree and the years agree modulo 100.\<close>

lemma monthYearLabel_inj:
  assumes "0 \<le> m" "m < 12" "0 \<le> m'" "m' < 12"
  shows "monthYearLabel y m = monthYearLabel y' m' \<longleftrightarrow> m = m' \<and> y mod 100 = y' mod 100"
proof -
  have d: "0 \<le> (y mod 100) div 10" "(y mod 100) div 10 < 10" "0 \<le> y mod 10" "y mod 10 < 10"
    "0 \<le> (y' mod 100) div 10" "(y' mod 100) div 10 < 10" "0 \<le> y' mod 10" "y' mod 10 < 10"
    by (simp_all add: two_digit_range)
  have "monthYearLabel y m = monthYearLabel y' m'
        \<longleftrightarrow> monthShort ! nat m = monthShort ! nat m'
            \<and> digitChar ((y mod 100) div 10) = digitChar ((y' mod 100) div 10)
            \<and> digitChar (y mod 10) = digitChar (y' mod 10)"
    using monthShort_length[OF assms(1,2)] monthShort_length[OF assms(3,4)]
    by (simp add: monthYearLabel_def)
  also have "\<dots> \<longleftrightarrow> m = m' \<and> ((y mod 100) div 10 = (y' mod 100) div 10 \<and> y mod 10 = y' mod 10)"
    using monthShort_inj[OF assms] digitChar_inj[OF d(1,2,5,6)] digitChar_inj[OF d(3,4,7,8)]
    by simp
  finally show ?thesis by (simp add: two_digits_mod100)
qed

lemma getMonth_range: "0 \<le> getMonth t" "getMonth t < 12"
  using MonthFromTime_range[of t] by (simp_all add: getMonth_def)

text \<open>The label of the first day of a month, for any year argument: the two-digit
  year of \<open>1900 + y\<close> is that of \<open>y\<close>.\<close>

lemma new_Date_first_label:
  "toLocaleDateString (new_Date y mon 1) = monthYearLabel (y + mon div 12) (mon mod 12)"
proof -
  define yr where "yr = (if 0 \<le> y \<and> y \<le> 99 then 1900 + y else y)"
  have "toLocaleDateString (new_Date y mon 1) = monthYearLabel (yr + mon div 12) (mon mod 12)"
    using MakeDay_first[of yr mon]
    by (simp add: toLocaleDateString_def new_Date_def getFullYear_def getMonth_def yr_def)
  also have "\<dots> = monthYearLabel (y + mon div 12) (mon mod 12)"
  proof (rule monthYearLabel_cong)
    have "(1900 + y + mon div 12) mod 100 = (y + mon div 12) mod 100" by algebra
    then show "(yr + mon div 12) mod 100 = (y + mon div 12) mod 100" by (simp add: yr_def)
  qed
  finally show ?thesis .
qed

lemma label_not_index:
  assumes "0 \<le> m" "m < 12"
  shows "\<not> is_array_index (monthYearLabel y m)"
  using month_cases[OF assms]
  by (elim insertE emptyE; simp add: is_array_index_def monthYearLabel_def monthShort_def)

subsection \<open>The monthly map\<close>

lemma update_at_absent: "map_of obj key = None \<Longrightarrow> update_at obj key f = obj"
proof -
  assume "map_of obj key = None"
  then have "\<forall>p \<in> set obj. fst p \<noteq> key" by (auto simp: map_of_eq_None_iff)
  then have "map (\<lambda>(k, v). if k = key then (k, f v) else (k, v)) obj = map (\<lambda>p. p) obj"
    by (intro map_cong refl) auto
  then show ?thesis by (simp add: update_at_def)
qed

lemma assign_fold_distinct:
  "distinct (map k js) \<Longrightarrow> foldl (\<lambda>mp i. assign mp (k i) (v i)) [] js = map (\<lambda>i. (k i, v i)) js"
proof (induction js rule: rev_induct)
  case Nil
  show ?case by simp
next
  case (snoc j js)
  then have "k j \<notin> k ` set js" and IH: "foldl (\<lambda>mp i. assign mp (k i) (v i)) [] js = map (\<lambda>i. (k i, v i)) js"
    by simp_all
  then have "map_of (map (\<lambda>i. (k i, v i)) js) (k j) = None"
    by (simp add: map_of_eq_None_iff image_image)
  then have "assign (map (\<lambda>i. (k i, v i)) js) (k j) (v j) = map (\<lambda>i. (k i, v i)) (js @ [j])"
    by (simp add: assign_def create_property_def)
  moreover have "foldl (\<lambda>mp i. assign mp (k i) (v i)) [] (js @ [j])
                   = assign (foldl (\<lambda>mp i. assign mp (k i) (v i)) [] js) (k j) (v j)"
    by simp
  ultimately show ?case by (simp only: IH)
qed

lemma update_fold:
  "foldl (\<lambda>mp b. update_at mp (key b) (upd b)) m0 bs
     = map (\<lambda>(k, v). (k, foldl (\<lambda>e b. upd b e) v (filter (\<lambda>b. key b = k) bs))) m0"
proof (induction bs arbitrary: m0)
  case Nil
  show ?case by simp
next
  case (Cons b bs)
  let ?F = "\<lambda>mp b. update_at mp (key b) (upd b)"
  have "foldl ?F m0 (b # bs) = foldl ?F (update_at m0 (key b) (upd b)) bs" by simp
  also have "\<dots> = map (\<lambda>(k, v). (k, foldl (\<lambda>e b. upd b e) v (filter (\<lambda>b. key b = k) bs)))
                       (update_at m0 (key b) (upd b))"
    by (rule Cons)
  also have "\<dots> = map (\<lambda>(k, v). (k, foldl (\<lambda>e b. upd b e) v (filter (\<lambda>x. key x = k) (b # bs)))) m0"
    unfolding update_at_def map_map by (intro map_cong refl) auto
  finally show ?case .
qed

lemma monthly_forEach_update:
  "monthly_forEach mp bug = update_at mp (toLocaleDateString (created_at bug)) (monthly_update bug)"
  by (simp add: monthly_forEach_def Let_def truthy_at_def update_at_absent)

lemma monthly_update_fold:
  "month (foldl (\<lambda>e bug. monthly_update bug e) e0 xs) = month e0"
  "submissions (foldl (\<lambda>e bug. monthly_update bug e) e0 xs) = submissions e0 + length xs"
  "MonthlyData.earnings (foldl (\<lambda>e bug. monthly_update bug e) e0 xs)
     = MonthlyData.earnings e0 + sum_list (map bounty xs)"
  "MonthlyData.accepted (foldl (\<lambda>e bug. monthly_update bug e) e0 xs)
     = MonthlyData.accepted e0 + length (filter (\<lambda>bug. status bug \<in> set acceptedStatuses) xs)"
  by (induction xs arbitrary: e0) (simp_all add: monthly_update_def)

lemma Object_entries_no_index:
  assumes "\<forall>p \<in> set obj. \<not> is_array_index (fst p)"
  shows "Object_entries obj = obj"
proof -
  have "filter (\<lambda>(k, v). is_array_index k) obj = []"
    using assms by (auto simp: filter_empty_conv)
  moreover have "filter (\<lambda>(k, v). \<not> is_array_index k) obj = obj"
    using assms by (auto simp: filter_id_conv)
  ultimately show ?thesis by (simp add: Object_entries_def)
qed

text \<open>The months of the twelve buckets are pairwise different.\<close>

lemma bucket_months_inj:
  fixes m :: int
  assumes "i \<in> set (rev [0..11])" "j \<in> set (rev [0..11])" "(m - i) mod 12 = (m - j) mod 12"
  shows "i = j"
proof -
  have r: "0 \<le> i" "i \<le> 11" "0 \<le> j" "j \<le> 11" using assms(1,2) by simp_all
  have "(m - i) mod 12 = (m - j) mod 12 \<longleftrightarrow> (i - j) mod 12 = 0"
    by (metis (no_types) diff_diff_eq2 diff_self mod_diff_cong mod_diff_left_eq add.commute
        add_diff_cancel_left' diff_add_cancel mod_0 mod_eq_dvd_iff minus_diff_eq)
  then have "12 dvd (i - j)" using assms(3) by (simp add: mod_eq_0_iff_dvd)
  then obtain c where c: "i - j = 12 * c" by (auto simp: dvd_def)
  then have "c = 0" using r by linarith
  then show ?thesis using c by simp
qed

text \<open>
  Claim C4 as stated fails: a record outside the 12-month window can be counted. With
  the current time in June 2025, a record created on 10 June 1925 is a century before
  the window, yet it is counted in the last bucket: the buckets are keyed by the label
  with a two-digit year, and both months are labelled \<^verbatim>\<open>Jun 25\<close>.
\<close>

theorem monthly_series_century_counterexample:
  "getFullYear (- 1406246400000) = 1925 \<and> getMonth (- 1406246400000) = 5
   \<and> - 1406246400000 < new_Date (getFullYear exampleNow) (getMonth exampleNow - 11) 1
   \<and> map month (calculateMonthlyData exampleNow [exampleBug\<lparr>created_at := - 1406246400000\<rparr>])
      = [''Jul 24'', ''Aug 24'', ''Sep 24'', ''Oct 24'', ''Nov 24'', ''Dec 24'',
         ''Jan 25'', ''Feb 25'', ''Mar 25'', ''Apr 25'', ''May 25'', ''Jun 25'']
   \<and> map submissions (calculateMonthlyData exampleNow [exampleBug\<lparr>created_at := - 1406246400000\<rparr>])
      = [0, 0, 0, 0, 0, 0, 0, 0, 0, 0, 0, 1]"
  by code_simp

text \<open>
  Claim C4, amended. For every input collection (the empty one included) and fixed
  current time, the Monthly Series has exactly 12 buckets with pairwise different
  labels, one per calendar month of the trailing 12 months ending at the current
  month, oldest first. A record is counted in the bucket whose month is the month of
  its \<open>created_at\<close> and whose year agrees with the year of its \<open>created_at\<close> modulo 100
  (the label has a two-digit year); so every record created in one of the 12 months is
  counted in exactly the matching bucket, and a record whose month and two-digit year
  match none of the 12 labels contributes to no bucket.
\<close>

theorem monthly_series:
  "calculateMonthlyData now bugList
     = map (\<lambda>j. let yy = getFullYear now + (getMonth now - j) div 12;
                   mm = (getMonth now - j) mod 12;
                   inBucket = filter (\<lambda>bug. getMonth (created_at bug) = mm
                       \<and> getFullYear (created_at bug) mod 100 = yy mod 100) bugList
               in \<lparr> month = monthYearLabel yy mm,
                    earnings = sum_list (map bounty inBucket),
                    submissions = length inBucket,
                    accepted = length (filter (\<lambda>bug. status bug \<in> set acceptedStatuses) inBucket) \<rparr>)
         (rev [0..11])
   \<and> length (calculateMonthlyData now bugList) = 12
   \<and> distinct (map month (calculateMonthlyData now bugList))"
proof -
  let ?js = "rev [0..11]"
  let ?yy = "\<lambda>j. getFullYear now + (getMonth now - j) div 12"
  let ?mm = "\<lambda>j. (getMonth now - j) mod 12"
  let ?L = "\<lambda>j. monthYearLabel (?yy j) (?mm j)"
  let ?Z = "\<lambda>j. \<lparr> month = ?L j, earnings = 0, submissions = 0, accepted = 0 \<rparr>"
  let ?lab = "\<lambda>bug. toLocaleDateString (created_at bug)"
  let ?In = "\<lambda>j. filter (\<lambda>bug. getMonth (created_at bug) = ?mm j
                       \<and> getFullYear (created_at bug) mod 100 = ?yy j mod 100) bugList"
  let ?B = "\<lambda>j. \<lparr> month = ?L j,
                    earnings = sum_list (map bounty (?In j)),
                    submissions = length (?In j),
                    accepted = length (filter (\<lambda>bug. status bug \<in> set acceptedStatuses) (?In j)) \<rparr>"
  have mm: "0 \<le> ?mm j" "?mm j < 12" for j by simp_all
  have inj: "inj_on ?L (set ?js)"
  proof (rule inj_onI)
    fix i j assume ij: "i \<in> set ?js" "j \<in> set ?js" and "?L i = ?L j"
    then have "?mm i = ?mm j" using monthYearLabel_inj[OF mm(1,2)[of i] mm(1,2)[of j]] by blast
    then show "i = j" using bucket_months_inj[OF ij] by simp
  qed
  have dist: "distinct (map ?L ?js)"
    using inj by (simp add: distinct_map)
  have init: "monthly_init now = (\<lambda>mp i. assign mp (?L i) (?Z i))"
    by (intro ext) (simp add: monthly_init_def Let_def new_Date_first_label)
  have M0: "foldl (monthly_init now) [] ?js = map (\<lambda>j. (?L j, ?Z j)) ?js"
    unfolding init using dist by (rule assign_fold_distinct)
  have each: "monthly_forEach = (\<lambda>mp b. update_at mp (?lab b) (monthly_update b))"
    by (intro ext) (rule monthly_forEach_update)
  have M1: "foldl monthly_forEach (map (\<lambda>j. (?L j, ?Z j)) ?js) bugList
              = map (\<lambda>j. (?L j, foldl (\<lambda>e b. monthly_update b e) (?Z j)
                               (filter (\<lambda>b. ?lab b = ?L j) bugList))) ?js"
    unfolding each update_fold map_map by (intro map_cong refl) simp
  have sel: "filter (\<lambda>b. ?lab b = ?L j) bugList = ?In j" for j
  proof (rule filter_cong[OF refl])
    fix b :: BugData
    show "(?lab b = ?L j) = (getMonth (created_at b) = ?mm j
                       \<and> getFullYear (created_at b) mod 100 = ?yy j mod 100)"
      unfolding toLocaleDateString_def
      using monthYearLabel_inj[OF getMonth_range[of "created_at b"] mm(1,2)[of j]] by blast
  qed
  have val: "foldl (\<lambda>e b. monthly_update b e) (?Z j) (filter (\<lambda>b. ?lab b = ?L j) bugList) = ?B j" for j
    unfolding sel by (rule MonthlyData.equality) (simp_all add: monthly_update_fold)
  have noidx: "\<forall>p \<in> set (map (\<lambda>j. (?L j, ?B j)) ?js). \<not> is_array_index (fst p)"
    using label_not_index[OF mm] by auto
  have "calculateMonthlyData now bugList = Object_values (map (\<lambda>j. (?L j, ?B j)) ?js)"
    by (simp only: calculateMonthlyData_def Let_def M0 M1 val)
  also have "\<dots> = map ?B ?js"
    unfolding Object_values_def Object_entries_no_index[OF noidx] by (simp add: comp_def)
  finally have main: "calculateMonthlyData now bugList = map ?B ?js" .
  have len: "length (calculateMonthlyData now bugList) = 12"
    unfolding main by simp
  have "map month (map ?B ?js) = map ?L ?js" by (simp add: comp_def)
  then have lab: "distinct (map month (calculateMonthlyData now bugList))"
    unfolding main using dist by (simp only:)
  show ?thesis
    using main len lab by (simp only: Let_def)
qed

theorem monthly_series_witness:
  "length (calculateMonthlyData exampleNow
      [exampleBug, exampleBug\<lparr>created_at := 1746835200000, status := ''Draft''\<rparr>,
       exampleBug\<lparr>created_at := 1640995200000\<rparr>]) = 12
   \<and> map submissions (calculateMonthlyData exampleNow
      [exampleBug, exampleBug\<lparr>created_at := 1746835200000, status := ''Draft''\<rparr>,
       exampleBug\<lparr>created_at := 1640995200000\<rparr>]) = [0, 0, 0, 0, 0, 0, 0, 0, 0, 0, 1, 1]
   \<and> map MonthlyData.accepted (calculateMonthlyData exampleNow
      [exampleBug, exampleBug\<lparr>created_at := 1746835200000, status := ''Draft''\<rparr>,
       exampleBug\<lparr>created_at := 1640995200000\<rparr>]) = [0, 0, 0, 0, 0, 0, 0, 0, 0, 0, 0, 1]"
proof -
  let ?l = "[exampleBug, exampleBug\<lparr>created_at := 1746835200000, status := ''Draft''\<rparr>,
       exampleBug\<lparr>created_at := 1640995200000\<rparr>]"
  have "length (calculateMonthlyData exampleNow ?l) = 12"
    using monthly_series[of exampleNow ?l] by blast
  moreover have "map submissions (calculateMonthlyData exampleNow ?l)
      = [0, 0, 0, 0, 0, 0, 0, 0, 0, 0, 1, 1]"
    by code_simp
  moreover have "map MonthlyData.accepted (calculateMonthlyData exampleNow ?l)
      = [0, 0, 0, 0, 0, 0, 0, 0, 0, 0, 0, 1]"
    by code_simp
  ultimately show ?thesis by (intro conjI)
qed

end
